(* ===== verification/Prelude.thy ===== *)
theory Prelude
  imports Main "HOL-Library.Word"
begin

text \<open>
  Shared vocabulary of the development: machine integers at the width the Rust code gives
  them, the two build profiles (overflow checks on, as in a debug build, or off, as in a
  release build), computations that may panic, and the generic list lemmas that several
  components need. The collection \<open>rust_arith\<close> holds the facts about machine arithmetic,
  \<open>outcome_simps\<close> the ones about panicking computations.
\<close>

named_theorems rust_arith \<open>facts about checked, wrapping and saturating machine arithmetic\<close>
named_theorems outcome_simps \<open>simplification of computations that may panic\<close>

section \<open>Machine integers\<close>

type_synonym u8 = "8 word"
type_synonym u16 = "16 word"
type_synonym u32 = "32 word"
type_synonym u64 = "64 word"
type_synonym slot = u64
type_synonym bytes = "u8 list"

section \<open>Computations that may panic\<close>

datatype panic_kind =
    ArithmeticOverflow
  | AssertionFailed
  | UnwrapFailed
  | ZeroStep

datatype 'a outcome = Return 'a | Panic panic_kind

primrec bind_outcome :: "'a outcome \<Rightarrow> ('a \<Rightarrow> 'b outcome) \<Rightarrow> 'b outcome" where
  "bind_outcome (Return x) f = f x"
| "bind_outcome (Panic k) f = Panic k"

definition unwrap :: "'a option \<Rightarrow> 'a outcome" where
  "unwrap m = (case m of None \<Rightarrow> Panic UnwrapFailed | Some x \<Rightarrow> Return x)"

lemma bind_outcome_assoc [outcome_simps]:
  "bind_outcome (bind_outcome m f) g = bind_outcome m (\<lambda>x. bind_outcome (f x) g)"
  by (cases m) simp_all

lemma bind_outcome_Return_iff [outcome_simps]:
  "bind_outcome m f = Return y \<longleftrightarrow> (\<exists>x. m = Return x \<and> f x = Return y)"
  by (cases m) simp_all

lemma unwrap_simps [simp, outcome_simps]:
  "unwrap None = Panic UnwrapFailed"
  "unwrap (Some x) = Return x"
  by (simp_all add: unwrap_def)

section \<open>Arithmetic of the two build profiles\<close>

text \<open>
  Rust's plain \<open>+\<close> and \<open>-\<close> on unsigned integers panic on overflow in a build with
  overflow checks and wrap around in one without.
\<close>

datatype profile = Checked | Wrapping

definition add_w :: "profile \<Rightarrow> 'a::len word \<Rightarrow> 'a word \<Rightarrow> 'a word outcome" where
  "add_w p a b =
     (if p = Checked \<and> 2 ^ LENGTH('a) \<le> unat a + unat b then Panic ArithmeticOverflow
      else Return (a + b))"

definition sub_w :: "profile \<Rightarrow> 'a::len word \<Rightarrow> 'a word \<Rightarrow> 'a word outcome" where
  "sub_w p a b = (if p = Checked \<and> a < b then Panic ArithmeticOverflow else Return (a - b))"

definition saturating_add :: "'a::len word \<Rightarrow> 'a word \<Rightarrow> 'a word" where
  "saturating_add a b = (if unat a + unat b < 2 ^ LENGTH('a) then a + b else - 1)"

definition saturating_sub :: "'a::len word \<Rightarrow> 'a word \<Rightarrow> 'a word" where
  "saturating_sub a b = (if a < b then 0 else a - b)"

definition checked_add :: "'a::len word \<Rightarrow> 'a word \<Rightarrow> 'a word option" where
  "checked_add a b = (if unat a + unat b < 2 ^ LENGTH('a) then Some (a + b) else None)"

lemma unat_u64_lt [rust_arith]: "unat (x :: u64) < 18446744073709551616"
  using unsigned_less[of x] by simp

lemma add_w_0 [simp, rust_arith]: "add_w p a 0 = Return a"
  using unsigned_less[of a] by (auto simp: add_w_def not_le)

lemma unat_add_fits [rust_arith]:
  fixes a b :: "'a::len word"
  assumes "unat a + unat b < 2 ^ LENGTH('a)"
  shows "unat (a + b) = unat a + unat b"
  using assms by (simp add: unat_word_ariths)

lemma add_w_fits [rust_arith]:
  fixes a b :: "'a::len word"
  assumes "unat a + unat b < 2 ^ LENGTH('a)"
  shows "add_w p a b = Return (a + b)"
  using assms by (simp add: add_w_def)

lemma sub_w_fits [rust_arith]: "b \<le> a \<Longrightarrow> sub_w p a b = Return (a - b)"
  by (simp add: sub_w_def not_less)

lemma unat_sub_fits [rust_arith]:
  fixes a b :: "'a::len word"
  shows "b \<le> a \<Longrightarrow> unat (a - b) = unat a - unat b"
  by (rule unat_sub)

lemma unat_saturating_sub [rust_arith]:
  "unat (saturating_sub a b) = unat a - unat b"
proof (cases "a < b")
  case True
  then show ?thesis by (simp add: saturating_sub_def word_less_nat_alt)
next
  case False
  then show ?thesis by (simp add: saturating_sub_def unat_sub_fits)
qed

lemma unat_minus_one_val: "unat (- 1 :: 'a::len word) = 2 ^ LENGTH('a) - 1"
  by (simp add: unat_eq_nat_uint unsigned_minus_1_eq_mask mask_eq_exp_minus_1
      nat_diff_distrib nat_power_eq)

lemma unat_saturating_add [rust_arith]:
  fixes a b :: "'a::len word"
  shows "unat (saturating_add a b) = min (unat a + unat b) (2 ^ LENGTH('a) - 1)"
proof (cases "unat a + unat b < 2 ^ LENGTH('a)")
  case True
  then have "min (unat a + unat b) (2 ^ LENGTH('a) - 1) = unat a + unat b"
    by (intro min_absorb1) linarith
  with True show ?thesis by (simp add: saturating_add_def unat_add_fits)
next
  case False
  then have "min (unat a + unat b) (2 ^ LENGTH('a) - 1) = 2 ^ LENGTH('a) - 1"
    by (intro min_absorb2) linarith
  with False show ?thesis by (simp add: saturating_add_def unat_minus_one_val)
qed

lemma checked_add_Some_iff [rust_arith]:
  fixes a b :: "'a::len word"
  shows "checked_add a b = Some c \<longleftrightarrow>
    unat a + unat b < 2 ^ LENGTH('a) \<and> unat c = unat a + unat b"
  by (auto simp: checked_add_def unat_add_fits word_unat_eq_iff)

lemma checked_add_None_iff [rust_arith]:
  fixes a b :: "'a::len word"
  shows "checked_add a b = None \<longleftrightarrow> 2 ^ LENGTH('a) \<le> unat a + unat b"
  by (simp add: checked_add_def not_less)

section \<open>Lists\<close>

text \<open>The last \<open>n\<close> elements: what a queue bounded by \<open>n\<close> keeps of its history.\<close>

definition take_last :: "nat \<Rightarrow> 'a list \<Rightarrow> 'a list" where
  "take_last n xs = drop (length xs - n) xs"

lemma length_take_last [simp]: "length (take_last n xs) = min n (length xs)"
  by (simp add: take_last_def)

lemma take_last_eq_Nil_iff [simp]: "take_last n xs = [] \<longleftrightarrow> n = 0 \<or> xs = []"
  by (auto simp flip: length_0_conv)

lemma set_take_last: "set (take_last n xs) \<subseteq> set xs"
  by (simp add: take_last_def set_drop_subset)

lemma take_last_short: "length xs \<le> n \<Longrightarrow> take_last n xs = xs"
  by (simp add: take_last_def)

lemma take_last_snoc: "take_last n (take_last n xs @ [x]) = take_last n (xs @ [x])"
  by (cases "length xs \<le> n") (auto simp: take_last_def Suc_diff_le)

text \<open>In a sorted list the element at a position is bounded by how many elements are small.\<close>

lemma sorted_nth_le_count:
  fixes xs :: "'a::linorder list"
  assumes "sorted xs" and "k < length (filter (\<lambda>x. x \<le> h) xs)"
  shows "xs ! k \<le> h"
proof (rule ccontr)
  assume "\<not> xs ! k \<le> h"
  moreover have len: "k < length xs"
    using assms(2) length_filter_le[of "\<lambda>x. x \<le> h" xs] by linarith
  ultimately have "\<forall>x \<in> set (drop k xs). \<not> x \<le> h"
    using assms(1) by (auto simp: in_set_conv_nth sorted_iff_nth_mono)
       (metis le_add1 less_diff_conv add.commute order.trans)
  then have "filter (\<lambda>x. x \<le> h) (drop k xs) = []"
    by (simp add: filter_empty_conv)
  then have "filter (\<lambda>x. x \<le> h) xs = filter (\<lambda>x. x \<le> h) (take k xs)"
    by (metis append_Nil2 append_take_drop_id filter_append)
  then have "length (filter (\<lambda>x. x \<le> h) xs) \<le> k"
    by (metis length_filter_le length_take min.bounded_iff)
  with assms(2) show False by simp
qed

lemma sorted_nth_ge_count:
  fixes xs :: "'a::linorder list"
  assumes "sorted xs" and "k < length xs" and "length (filter (\<lambda>x. x < l) xs) \<le> k"
  shows "l \<le> xs ! k"
proof (rule ccontr)
  assume "\<not> l \<le> xs ! k"
  then have "\<forall>x \<in> set (take (Suc k) xs). x < l"
    using assms(1,2) by (auto simp: in_set_conv_nth sorted_iff_nth_mono not_le)
       (metis le_less_trans less_Suc_eq_le)
  then have "filter (\<lambda>x. x < l) (take (Suc k) xs) = take (Suc k) xs"
    by (simp add: filter_id_conv)
  then have "Suc k \<le> length (filter (\<lambda>x. x < l) xs)"
    using assms(2) by (metis append_take_drop_id filter_append length_append
        length_take le_add1 min.absorb2 Suc_leI)
  with assms(3) show False by simp
qed

lemma find_rev_sorted:
  fixes xs :: "'a::linorder list"
  assumes "sorted xs" and "x \<in> set xs" and "x \<le> b"
  shows "\<exists>y. find (\<lambda>s. s \<le> b) (rev xs) = Some y \<and> y \<in> set xs \<and> y \<le> b
           \<and> (\<forall>z \<in> set xs. z \<le> b \<longrightarrow> z \<le> y)"
  using assms
proof (induction xs rule: rev_induct)
  case Nil
  then show ?case by simp
next
  case (snoc a xs)
  then show ?case by (auto simp: sorted_append)
qed

end
