(* ===== verification/Recent_Slots.thy ===== *)
theory Recent_Slots
  imports Prelude
begin

text \<open>
  \<open>RecentLeaderSlots\<close> of \<open>src/src/engine/recent_leaders_slot.rs\<close>: the bounded window of
  recently observed slots and the estimate of the current slot computed from it. The
  shared \<open>Arc<RwLock<VecDeque<Slot>>>\<close> is its contents; every operation takes the lock
  once, so an operation is one atomic step on the contents.
\<close>

section \<open>Configuration constants\<close>

definition DEFAULT_FANOUT_SLOTS :: u64 where "DEFAULT_FANOUT_SLOTS = 64"

definition MAX_FANOUT_SLOTS :: u64 where "MAX_FANOUT_SLOTS = 100"

definition MAX_SLOT_SKIP_DISTANCE :: u64 where "MAX_SLOT_SKIP_DISTANCE = 48"

record tpu_client_config =
  config_fanout_slots :: u64

definition default_config :: tpu_client_config where
  "default_config = \<lparr>config_fanout_slots = DEFAULT_FANOUT_SLOTS\<rparr>"

section \<open>The window\<close>

record recent_leader_slots =
  window :: "slot list"

definition new_recent_slots :: "slot \<Rightarrow> recent_leader_slots" where
  "new_recent_slots current_slot = \<lparr>window = [current_slot]\<rparr>"

text \<open>The \<open>while recent_slots.len() > 12 { recent_slots.pop_front(); }\<close> of \<open>record_slot\<close>.\<close>

fun pop_excess :: "slot list \<Rightarrow> slot list" where
  "pop_excess [] = []"
| "pop_excess (x # xs) = (if 12 < length (x # xs) then pop_excess xs else x # xs)"

definition record_slot :: "recent_leader_slots \<Rightarrow> slot \<Rightarrow> recent_leader_slots" where
  "record_slot rs current_slot = rs\<lparr>window := pop_excess (window rs @ [current_slot])\<rparr>"

definition estimated_current_slot :: "profile \<Rightarrow> recent_leader_slots \<Rightarrow> slot outcome" where
  "estimated_current_slot p rs =
     (if window rs = [] then Panic AssertionFailed
      else
        let recent_slots = sort (window rs);
            max_index = length recent_slots - 1;
            median_index = max_index div 2;
            median_recent_slot = recent_slots ! median_index
        in bind_outcome (add_w p median_recent_slot (of_nat (max_index - median_index)))
             (\<lambda>expected_current_slot.
           bind_outcome (add_w p expected_current_slot MAX_SLOT_SKIP_DISTANCE)
             (\<lambda>max_reasonable_current_slot.
           unwrap (find (\<lambda>slot. slot \<le> max_reasonable_current_slot) (rev recent_slots)))))"

section \<open>The window keeps the last twelve slots\<close>

lemma pop_excess_eq: "pop_excess xs = take_last 12 xs"
proof (induction xs rule: pop_excess.induct)
  case 1
  then show ?case by (simp add: take_last_def)
next
  case (2 x xs)
  show ?case
  proof (cases "12 < length (x # xs)")
    case True
    then have "length xs - 11 = Suc (length xs - 12)" by simp
    with True 2 show ?thesis by (simp add: take_last_def)
  next
    case False
    then show ?thesis by (simp add: take_last_def)
  qed
qed

lemma window_new [simp]: "window (new_recent_slots s) = [s]"
  by (simp add: new_recent_slots_def)

lemma window_record: "window (record_slot rs s) = take_last 12 (window rs @ [s])"
  by (simp add: record_slot_def pop_excess_eq)

definition window_ok :: "recent_leader_slots \<Rightarrow> bool" where
  "window_ok rs \<longleftrightarrow> window rs \<noteq> [] \<and> length (window rs) \<le> 12"

lemma window_ok_new [simp, intro]: "window_ok (new_recent_slots s)"
  by (simp add: window_ok_def)

lemma window_ok_record [simp, intro]: "window_ok (record_slot rs s)"
  by (simp add: window_ok_def window_record flip: length_0_conv)

definition record_all :: "recent_leader_slots \<Rightarrow> slot list \<Rightarrow> recent_leader_slots" where
  "record_all rs ss = foldl record_slot rs ss"

lemma record_all_simps [simp]:
  "record_all rs [] = rs"
  "record_all rs (s # ss) = record_all (record_slot rs s) ss"
  by (simp_all add: record_all_def)

lemma record_all_append: "record_all rs (ss @ ts) = record_all (record_all rs ss) ts"
  by (simp add: record_all_def)

lemma window_record_all:
  assumes "length (window rs) \<le> 12"
  shows "window (record_all rs ss) = take_last 12 (window rs @ ss)"
  using assms
proof (induction ss rule: rev_induct)
  case Nil
  then show ?case by (simp add: take_last_short)
next
  case (snoc s ss)
  then show ?case
    by (simp add: record_all_append window_record take_last_snoc flip: append_assoc)
qed

section \<open>The estimate\<close>

text \<open>
  The bound the code calls \<open>max_reasonable_current_slot\<close>, over the natural numbers: the
  (lower) median of the window, plus one slot per entry above it, plus the skip distance.
\<close>

definition median_slot :: "slot list \<Rightarrow> slot" where
  "median_slot xs = sort xs ! ((length xs - 1) div 2)"

definition reasonable_bound :: "slot list \<Rightarrow> nat" where
  "reasonable_bound xs = unat (median_slot xs) + (length xs - 1 - (length xs - 1) div 2) + 48"

lemma median_slot_mem: "xs \<noteq> [] \<Longrightarrow> median_slot xs \<in> set xs"
proof -
  assume "xs \<noteq> []"
  then have "(length xs - 1) div 2 < length (sort xs)"
    by (cases xs) auto
  then show ?thesis
    unfolding median_slot_def by (metis nth_mem set_sort)
qed

lemma median_index_lt: "xs \<noteq> [] \<Longrightarrow> (length xs - 1) div 2 < length xs"
  by (cases xs) auto

lemma length_filter_sort [simp]: "length (filter P (sort xs)) = length (filter P xs)"
  by (metis filter_sort length_sort)

lemma median_slot_le:
  assumes "(length xs - 1) div 2 < length (filter (\<lambda>x. x \<le> h) xs)"
  shows "median_slot xs \<le> h"
  unfolding median_slot_def by (rule sorted_nth_le_count) (use assms in simp_all)

lemma median_slot_ge:
  assumes "xs \<noteq> []" and "length (filter (\<lambda>x. x < l) xs) \<le> (length xs - 1) div 2"
  shows "l \<le> median_slot xs"
  unfolding median_slot_def
  by (rule sorted_nth_ge_count) (use assms median_index_lt in simp_all)

lemma estimated_current_slot_eq:
  assumes "window rs \<noteq> []"
  shows "estimated_current_slot p rs =
    bind_outcome (add_w p (median_slot (window rs))
        (of_nat (length (window rs) - 1 - (length (window rs) - 1) div 2)))
      (\<lambda>e. bind_outcome (add_w p e MAX_SLOT_SKIP_DISTANCE)
        (\<lambda>m. unwrap (find (\<lambda>s. s \<le> m) (rev (sort (window rs))))))"
  using assms
  by (simp only: estimated_current_slot_def Let_def median_slot_def length_sort if_False)

text \<open>The estimate where the bound fits 64 bits, in both build profiles.\<close>

lemma estimated_current_slot_fits:
  assumes ne: "window rs \<noteq> []" and len: "length (window rs) \<le> 2 ^ 32"
    and fits: "reasonable_bound (window rs) < 2 ^ 64"
  shows "\<exists>s. estimated_current_slot p rs = Return s \<and> s \<in> set (window rs)
    \<and> unat s \<le> reasonable_bound (window rs)
    \<and> (\<forall>t \<in> set (window rs). unat t \<le> reasonable_bound (window rs) \<longrightarrow> t \<le> s)"
proof -
  let ?xs = "window rs" let ?n = "length ?xs - 1" let ?d = "?n - ?n div 2"
  let ?m = "median_slot ?xs"
  have d: "unat (of_nat ?d :: u64) = ?d"
    using len by (simp add: unat_of_nat)
  have add1: "add_w p ?m (of_nat ?d) = Return (?m + of_nat ?d)"
    and u1: "unat (?m + of_nat ?d) = unat ?m + ?d"
    using fits d by (simp_all add: rust_arith reasonable_bound_def)
  let ?b = "?m + of_nat ?d + MAX_SLOT_SKIP_DISTANCE"
  have add2: "add_w p (?m + of_nat ?d) MAX_SLOT_SKIP_DISTANCE = Return ?b"
    and u2: "unat ?b = reasonable_bound ?xs"
    using fits u1 by (simp_all add: rust_arith reasonable_bound_def MAX_SLOT_SKIP_DISTANCE_def)
  have le: "t \<le> ?b \<longleftrightarrow> unat t \<le> reasonable_bound ?xs" for t
    by (simp only: word_le_nat_alt u2)
  have "?m \<le> ?b"
    unfolding le by (simp add: reasonable_bound_def)
  then obtain y where "find (\<lambda>s. s \<le> ?b) (rev (sort ?xs)) = Some y" "y \<in> set ?xs" "y \<le> ?b"
      "\<forall>z \<in> set ?xs. z \<le> ?b \<longrightarrow> z \<le> y"
    using find_rev_sorted[of "sort ?xs" ?m ?b] median_slot_mem[OF ne] by auto
  then show ?thesis
    by (simp only: estimated_current_slot_eq[OF ne] add1 add2 bind_outcome.simps unwrap_simps le)
       auto
qed

text \<open>Where it does not fit, the checked build panics.\<close>

lemma estimated_current_slot_overflow:
  assumes ne: "window rs \<noteq> []" and len: "length (window rs) \<le> 2 ^ 32"
    and big: "2 ^ 64 \<le> reasonable_bound (window rs)"
  shows "estimated_current_slot Checked rs = Panic ArithmeticOverflow"
proof -
  let ?xs = "window rs" let ?d = "length ?xs - 1 - (length ?xs - 1) div 2"
  let ?m = "median_slot ?xs"
  have d: "unat (of_nat ?d :: u64) = ?d"
    using len by (simp add: unat_of_nat)
  show ?thesis
  proof (cases "unat ?m + ?d < 2 ^ 64")
    case True
    with d have "add_w Checked ?m (of_nat ?d) = Return (?m + of_nat ?d)"
      and "unat (?m + of_nat ?d) = unat ?m + ?d"
      by (simp_all add: rust_arith)
    with big show ?thesis
      by (simp add: estimated_current_slot_eq[OF ne] add_w_def reasonable_bound_def
          MAX_SLOT_SKIP_DISTANCE_def)
  next
    case False
    with d have "add_w Checked ?m (of_nat ?d) = Panic ArithmeticOverflow"
      by (simp add: add_w_def)
    then show ?thesis by (simp only: estimated_current_slot_eq[OF ne] bind_outcome.simps)
  qed
qed

section \<open>The interface the leader service relies on\<close>

text \<open>
  A bounded tracker of observed slots: pushing a slot keeps the last \<open>cap\<close> of them, and as
  long as every kept slot leaves \<open>margin\<close> below the top of 64 bits, the estimate is one of
  them.
\<close>

locale slot_tracker =
  fixes fresh :: "slot \<Rightarrow> 't"
    and push :: "'t \<Rightarrow> slot \<Rightarrow> 't"
    and estimate :: "'t \<Rightarrow> slot outcome"
    and contents :: "'t \<Rightarrow> slot list"
    and cap :: nat
    and margin :: nat
  assumes cap_pos: "0 < cap"
    and contents_fresh: "contents (fresh s) = [s]"
    and contents_push: "contents (push t s) = take_last cap (contents t @ [s])"
    and estimate_member:
      "contents t \<noteq> [] \<Longrightarrow> length (contents t) \<le> cap \<Longrightarrow>
       \<forall>s \<in> set (contents t). unat s + margin < 2 ^ 64 \<Longrightarrow>
       \<exists>e. estimate t = Return e \<and> e \<in> set (contents t)"
begin

lemma contents_history: "contents (foldl push (fresh s0) ss) = take_last cap (s0 # ss)"
proof (induction ss rule: rev_induct)
  case Nil
  then show ?case using cap_pos by (simp add: contents_fresh take_last_short)
next
  case (snoc s ss)
  then show ?case
    by (simp add: contents_push take_last_snoc flip: append_Cons)
qed

lemma estimate_history:
  assumes "\<forall>s \<in> set (s0 # ss). unat s + margin < 2 ^ 64"
  shows "\<exists>e. estimate (foldl push (fresh s0) ss) = Return e \<and> e \<in> set (take_last cap (s0 # ss))"
proof -
  let ?t = "foldl push (fresh s0) ss"
  have c: "contents ?t = take_last cap (s0 # ss)"
    by (rule contents_history)
  have "length (contents ?t) \<le> cap" and "length (contents ?t) \<noteq> 0"
    using cap_pos by (simp_all add: c)
  moreover have "\<forall>s \<in> set (contents ?t). unat s + margin < 2 ^ 64"
    using assms set_take_last[of cap "s0 # ss"] by (auto simp only: c)
  ultimately show ?thesis
    using estimate_member[of ?t] by (simp add: c)
qed

end

lemma estimated_current_slot_margin:
  assumes "window rs \<noteq> []" and "length (window rs) \<le> 12"
    and "\<forall>s \<in> set (window rs). unat s + 54 < 2 ^ 64"
  shows "\<exists>e. estimated_current_slot p rs = Return e \<and> e \<in> set (window rs)"
proof -
  have "reasonable_bound (window rs) < 2 ^ 64"
    using assms(2) bspec[OF assms(3) median_slot_mem[OF assms(1)]]
    by (simp add: reasonable_bound_def)
  then show ?thesis
    using estimated_current_slot_fits[of rs p] assms by auto
qed

interpretation rls: slot_tracker new_recent_slots record_slot "estimated_current_slot p" window 12 54
  for p
  by unfold_locales (auto simp: window_record intro: estimated_current_slot_margin)

section \<open>Properties\<close>

text \<open>
  C9: The estimate is a recently observed slot, at most the reasonable bound (median plus the
  entries above it plus 48), and the highest observed slot within that bound, in both build
  profiles.
\<close>
theorem estimate_is_highest_reasonable:
  assumes "window_ok rs" and "reasonable_bound (window rs) < 2 ^ 64"
  shows "\<exists>s. estimated_current_slot p rs = Return s \<and> s \<in> set (window rs)
    \<and> unat s \<le> reasonable_bound (window rs)
    \<and> (\<forall>t \<in> set (window rs). unat t \<le> reasonable_bound (window rs) \<longrightarrow> t \<le> s)"
  using assms by (intro estimated_current_slot_fits) (simp_all add: window_ok_def)

theorem estimate_is_highest_reasonable_witness:
  "\<exists>s. estimated_current_slot Checked \<lparr>window = [10, 12, 900, 11]\<rparr> = Return s
    \<and> s \<in> set (window \<lparr>window = [10, 12, 900, 11]\<rparr>)
    \<and> unat s \<le> reasonable_bound (window \<lparr>window = [10, 12, 900, 11]\<rparr>)"
  using estimate_is_highest_reasonable[of "\<lparr>window = [10, 12, 900, 11]\<rparr>" Checked]
  by (auto simp: window_ok_def reasonable_bound_def median_slot_def)

text \<open>
  C10: Up to half of the window may be outliers: if at most half of the observed slots exceed
  \<open>hi\<close> and fewer than half are below \<open>lo\<close>, the estimate lies between \<open>lo\<close> and
  \<open>hi + 54\<close>, so a misbehaving validator that announces far-future slots cannot drag it.
\<close>
theorem estimate_outlier_robust:
  assumes "window_ok rs"
    and "2 * length (filter (\<lambda>s. hi < s) (window rs)) \<le> length (window rs)"
    and "2 * length (filter (\<lambda>s. s < lo) (window rs)) < length (window rs)"
    and "unat hi + 54 < 2 ^ 64"
  shows "\<exists>s. estimated_current_slot p rs = Return s \<and> lo \<le> s \<and> unat s \<le> unat hi + 54"
proof -
  let ?xs = "window rs"
  have ne: "?xs \<noteq> []" and len: "length ?xs \<le> 12"
    using assms(1) by (simp_all add: window_ok_def)
  have "length (filter (\<lambda>x. x \<le> hi) ?xs) + length (filter (\<lambda>s. hi < s) ?xs) = length ?xs"
    using sum_length_filter_compl[of "\<lambda>x. x \<le> hi" ?xs] by (simp add: not_le)
  then have "(length ?xs - 1) div 2 < length (filter (\<lambda>x. x \<le> hi) ?xs)"
    using assms(2) ne by (cases ?xs) auto
  then have hi: "median_slot ?xs \<le> hi"
    by (rule median_slot_le)
  have lo: "lo \<le> median_slot ?xs"
    by (rule median_slot_ge[OF ne]) (use assms(3) in linarith)
  have b: "reasonable_bound ?xs \<le> unat hi + 54"
    using hi len by (simp add: reasonable_bound_def word_le_nat_alt)
  then obtain s where s: "estimated_current_slot p rs = Return s"
      "unat s \<le> reasonable_bound ?xs"
      "\<forall>t \<in> set ?xs. unat t \<le> reasonable_bound ?xs \<longrightarrow> t \<le> s"
    using estimated_current_slot_fits[of rs p] ne len assms(4) by auto
  have "median_slot ?xs \<le> s"
    using s(3) median_slot_mem[OF ne] by (simp add: reasonable_bound_def)
  with s lo b show ?thesis by (auto intro: order_trans)
qed

theorem estimate_outlier_robust_witness:
  "\<exists>s. estimated_current_slot Wrapping \<lparr>window = [100, 101, 9000, 9001]\<rparr> = Return s
    \<and> 100 \<le> s \<and> unat s \<le> unat (101 :: u64) + 54"
  by (rule estimate_outlier_robust) (simp_all add: window_ok_def)

text \<open>
  C21: Recording any sequence of slots into a fresh window leaves exactly the last twelve slots
  of the history, the start slot included, in order of arrival.
\<close>
theorem window_is_recent_history:
  "window (foldl record_slot (new_recent_slots s0) ss) = take_last 12 (s0 # ss)"
  by (rule rls.contents_history)

text \<open>
  C33: No history of slot notifications below \<open>2^64 - 54\<close> makes the estimate panic, and the
  estimate is one of the last twelve slots: the \<open>assert!\<close> and the final \<open>unwrap\<close> never fire.
\<close>
theorem estimate_never_panics:
  assumes "\<forall>s \<in> set (s0 # ss). unat s + 54 < 2 ^ 64"
  shows "\<exists>e. estimated_current_slot p (foldl record_slot (new_recent_slots s0) ss) = Return e
    \<and> e \<in> set (take_last 12 (s0 # ss))"
  by (rule rls.estimate_history) (rule assms)

theorem estimate_never_panics_witness:
  "\<exists>e. estimated_current_slot Checked (foldl record_slot (new_recent_slots 5) [6, 7]) = Return e
    \<and> e \<in> set (take_last 12 [5, 6, 7])"
  by (rule estimate_never_panics) simp

text \<open>
  A freshly created tracker estimates its only slot exactly when 48 can be added to it
  within 64 bits; above that the overflow check panics, and without overflow checks the
  wrapped bound excludes every slot, so the final \<open>unwrap\<close> panics instead.
\<close>
lemma fresh_estimate_boundary:
  "estimated_current_slot p (new_recent_slots s) =
    (if unat s + 48 < 2 ^ 64 then Return s
     else Panic (if p = Checked then ArithmeticOverflow else UnwrapFailed))"
proof (cases "unat s + 48 < 2 ^ 64")
  case True
  then show ?thesis
    using estimated_current_slot_fits[of "new_recent_slots s" p]
    by (auto simp: reasonable_bound_def median_slot_def)
next
  case False
  have "\<not> s \<le> s + MAX_SLOT_SKIP_DISTANCE"
  proof -
    have "unat (s + MAX_SLOT_SKIP_DISTANCE) = (unat s + 48) mod 2 ^ 64"
      by (simp add: unat_word_ariths MAX_SLOT_SKIP_DISTANCE_def)
    also have "\<dots> = unat s + 48 - 2 ^ 64"
      using False unat_u64_lt[of s] by (simp add: mod_if)
    finally show ?thesis
      using False unat_u64_lt[of s] by (simp add: word_le_nat_alt)
  qed
  then show ?thesis
    using False
    by (auto simp: estimated_current_slot_eq median_slot_def add_w_def
        MAX_SLOT_SKIP_DISTANCE_def)
qed

end
