(* ===== verification/Leader_Cache.thy ===== *)
theory Leader_Cache
  imports Recent_Slots "HOL-Library.Product_Lexorder"
begin

text \<open>
  \<open>LeaderTpuCache\<close> of \<open>src/src/engine/leader_tpu_cache.rs\<close>: the leader schedule from
  \<open>first_slot\<close> on, the map from validator identity to TPU socket, and the two reads the
  sender makes of it. Values of the Solana SDK the code uses (the number of consecutive
  leader slots, the QUIC port offset, the milliseconds per slot and \<open>Pubkey::from_str\<close>) are
  not part of the repository: they are the fields of a parameter \<open>sdk\<close>. A \<open>Pubkey\<close> is its
  32 bytes. A 64-bit target is assumed, so \<open>u64\<close> to \<open>usize\<close> conversions keep the value.
\<close>

section \<open>Data\<close>

type_synonym pubkey = "256 word"

datatype protocol = UDP | QUIC

datatype socket_addr =
    SocketV4 "32 word" u16
  | SocketV6 "128 word" u16 "32 word" "32 word"

primrec socket_port :: "socket_addr \<Rightarrow> u16" where
  "socket_port (SocketV4 ip p) = p"
| "socket_port (SocketV6 ip p flow scp) = p"

primrec set_port :: "socket_addr \<Rightarrow> u16 \<Rightarrow> socket_addr" where
  "set_port (SocketV4 ip p) q = SocketV4 ip q"
| "set_port (SocketV6 ip p flow scp) q = SocketV6 ip q flow scp"

text \<open>
  The order of socket addresses is the one Rust derives: an IPv4 address comes before an IPv6
  address, and within a family the fields are compared from left to right.
\<close>

primrec addr_key :: "socket_addr \<Rightarrow> nat \<times> nat \<times> nat \<times> nat \<times> nat" where
  "addr_key (SocketV4 ip p) = (0, unat ip, unat p, 0, 0)"
| "addr_key (SocketV6 ip p flow scp) = (1, unat ip, unat p, unat flow, unat scp)"

lemma addr_key_eq_iff [simp]: "addr_key a = addr_key b \<longleftrightarrow> a = b"
  by (cases a; cases b) (auto simp: word_unat_eq_iff)

instantiation socket_addr :: linorder
begin

definition less_eq_socket_addr :: "socket_addr \<Rightarrow> socket_addr \<Rightarrow> bool" where
  "less_eq_socket_addr a b \<longleftrightarrow> addr_key a \<le> addr_key b"

definition less_socket_addr :: "socket_addr \<Rightarrow> socket_addr \<Rightarrow> bool" where
  "less_socket_addr a b \<longleftrightarrow> addr_key a < addr_key b"

instance
proof
  fix a b c :: socket_addr
  show "a < b \<longleftrightarrow> a \<le> b \<and> \<not> b \<le> a"
    unfolding less_eq_socket_addr_def less_socket_addr_def by (rule less_le_not_le)
  show "a \<le> a" by (simp add: less_eq_socket_addr_def)
  show "a \<le> b \<Longrightarrow> b \<le> c \<Longrightarrow> a \<le> c"
    unfolding less_eq_socket_addr_def by (rule order.trans)
  show "a \<le> b \<Longrightarrow> b \<le> a \<Longrightarrow> a = b"
    unfolding less_eq_socket_addr_def by (metis addr_key_eq_iff order.antisym)
  show "a \<le> b \<or> b \<le> a" unfolding less_eq_socket_addr_def by (rule linear)
qed

end

record sdk =
  num_consecutive_leader_slots :: u64
  quic_port_offset :: u16
  default_ms_per_slot :: u64
  pubkey_from_str :: "string \<Rightarrow> pubkey option"

text \<open>The fields of \<open>RpcContactInfo\<close> and \<open>EpochInfo\<close> the code reads.\<close>

record rpc_contact_info =
  contact_pubkey :: string
  contact_tpu :: "socket_addr option"
  contact_tpu_quic :: "socket_addr option"

record epoch_info =
  epoch_slots_in_epoch :: slot

record leader_tpu_cache =
  protocol :: protocol
  first_slot :: slot
  leaders :: "pubkey list"
  leader_tpu_map :: "pubkey \<Rightarrow> socket_addr option"
  slots_in_epoch :: slot
  last_epoch_info_slot :: slot

text \<open>The results of the RPC calls a refresh made: absent, failed with an error, or a value.\<close>

record 'e cache_update_info =
  maybe_cluster_nodes :: "('e + rpc_contact_info list) option"
  maybe_epoch_info :: "('e + epoch_info) option"
  maybe_slot_leaders :: "('e + pubkey list) option"

definition has_some :: "'e cache_update_info \<Rightarrow> bool" where
  "has_some u \<longleftrightarrow> maybe_cluster_nodes u \<noteq> None \<or> maybe_epoch_info u \<noteq> None
     \<or> maybe_slot_leaders u \<noteq> None"

section \<open>Extracting the TPU sockets of the cluster\<close>

definition quic_socket :: "sdk \<Rightarrow> rpc_contact_info \<Rightarrow> socket_addr option" where
  "quic_socket k c =
     (case contact_tpu_quic c of
        Some socket \<Rightarrow> Some socket
      | None \<Rightarrow>
          (case contact_tpu c of
             None \<Rightarrow> None
           | Some socket \<Rightarrow>
               (case checked_add (socket_port socket) (quic_port_offset k) of
                  None \<Rightarrow> None
                | Some port \<Rightarrow> Some (set_port socket port))))"

definition contact_entry ::
  "sdk \<Rightarrow> protocol \<Rightarrow> rpc_contact_info \<Rightarrow> (pubkey \<times> socket_addr) option" where
  "contact_entry k proto c =
     (case pubkey_from_str k (contact_pubkey c) of
        None \<Rightarrow> None
      | Some pubkey \<Rightarrow>
          (case (case proto of QUIC \<Rightarrow> quic_socket k c | UDP \<Rightarrow> contact_tpu c) of
             None \<Rightarrow> None
           | Some socket \<Rightarrow> Some (pubkey, socket)))"

text \<open>Collecting pairs into a \<open>HashMap\<close> inserts them in order: a later pair wins.\<close>

definition collect_map :: "('k \<times> 'v) list \<Rightarrow> 'k \<Rightarrow> 'v option" where
  "collect_map kvs = foldl (\<lambda>m (k, v). m(k \<mapsto> v)) Map.empty kvs"

definition extract_cluster_tpu_sockets ::
  "sdk \<Rightarrow> protocol \<Rightarrow> rpc_contact_info list \<Rightarrow> pubkey \<Rightarrow> socket_addr option" where
  "extract_cluster_tpu_sockets k proto cs = collect_map (List.map_filter (contact_entry k proto) cs)"

section \<open>Operations of the cache\<close>

definition new_leader_cache ::
  "sdk \<Rightarrow> slot \<Rightarrow> slot \<Rightarrow> pubkey list \<Rightarrow> rpc_contact_info list \<Rightarrow> protocol \<Rightarrow> leader_tpu_cache" where
  "new_leader_cache k first n ls nodes proto =
     \<lparr>protocol = proto, first_slot = first, leaders = ls,
      leader_tpu_map = extract_cluster_tpu_sockets k proto nodes,
      slots_in_epoch = n, last_epoch_info_slot = first\<rparr>"

definition last_slot :: "profile \<Rightarrow> leader_tpu_cache \<Rightarrow> slot outcome" where
  "last_slot p c = add_w p (first_slot c) (of_nat (length (leaders c) - 1))"

definition slot_info :: "profile \<Rightarrow> leader_tpu_cache \<Rightarrow> (slot \<times> slot \<times> slot) outcome" where
  "slot_info p c =
     bind_outcome (last_slot p c) (\<lambda>l. Return (l, last_epoch_info_slot c, slots_in_epoch c))"

definition get_slot_leader :: "leader_tpu_cache \<Rightarrow> slot \<Rightarrow> pubkey option" where
  "get_slot_leader c s =
     (if first_slot c \<le> s then
        (let index = unat (s - first_slot c)
         in if index < length (leaders c) then Some (leaders c ! index) else None)
      else None)"

text \<open>The slots of \<open>(a..b).step_by(k)\<close>; a zero step panics where the iterator is built.\<close>

function steps :: "nat \<Rightarrow> nat \<Rightarrow> nat \<Rightarrow> nat list" where
  "steps a b k = (if a < b \<and> 0 < k then a # steps (a + k) b k else [])"
  by pat_completeness auto
termination
  by (relation "measure (\<lambda>(a, b, k). b - a)") auto

declare steps.simps [simp del]

definition step_by_range :: "slot \<Rightarrow> slot \<Rightarrow> nat \<Rightarrow> slot list outcome" where
  "step_by_range a b k =
     (if k = 0 then Panic ZeroStep else Return (map of_nat (steps (unat a) (unat b) k)))"

text \<open>
  The loop of \<open>get_leader_sockets\<close>. The warning for an unknown leader evaluates
  \<open>self.last_slot()\<close>, whose addition may panic in a checked build (warnings are enabled, as the
  server's subscriber has them).
\<close>

fun leader_sockets_loop ::
  "profile \<Rightarrow> leader_tpu_cache \<Rightarrow> socket_addr list \<Rightarrow> slot list \<Rightarrow> socket_addr list outcome" where
  "leader_sockets_loop p c leader_sockets [] = Return leader_sockets"
| "leader_sockets_loop p c leader_sockets (leader_slot # rest) =
     (case get_slot_leader c leader_slot of
        Some leader \<Rightarrow>
          (case leader_tpu_map c leader of
             Some tpu_socket \<Rightarrow> leader_sockets_loop p c (leader_sockets @ [tpu_socket]) rest
           | None \<Rightarrow> leader_sockets_loop p c leader_sockets rest)
      | None \<Rightarrow>
          bind_outcome (last_slot p c) (\<lambda>_. leader_sockets_loop p c leader_sockets rest))"

definition get_leader_sockets ::
  "sdk \<Rightarrow> profile \<Rightarrow> leader_tpu_cache \<Rightarrow> slot \<Rightarrow> u64 \<Rightarrow> socket_addr list outcome" where
  "get_leader_sockets k p c est_slot fanout_slots =
     (let current_slot = max est_slot (first_slot c)
      in bind_outcome (add_w p current_slot fanout_slots) (\<lambda>end_slot.
         bind_outcome
           (step_by_range current_slot end_slot (unat (num_consecutive_leader_slots k)))
           (leader_sockets_loop p c [])))"

text \<open>The de-duplicating loop: \<open>seen.insert\<close> is true exactly for a value not yet seen.\<close>

fun unique_loop :: "'a list \<Rightarrow> 'a set \<Rightarrow> 'a list \<Rightarrow> 'a list" where
  "unique_loop unique_sockets seen [] = unique_sockets"
| "unique_loop unique_sockets seen (socket # rest) =
     (if socket \<notin> seen then unique_loop (unique_sockets @ [socket]) (insert socket seen) rest
      else unique_loop unique_sockets seen rest)"

definition get_unique_leader_sockets ::
  "sdk \<Rightarrow> profile \<Rightarrow> leader_tpu_cache \<Rightarrow> slot \<Rightarrow> u64 \<Rightarrow> socket_addr list outcome" where
  "get_unique_leader_sockets k p c est_slot fanout_slots =
     bind_outcome (get_leader_sockets k p c est_slot fanout_slots)
       (\<lambda>all_leader_sockets. Return (unique_loop [] {} all_leader_sockets))"

definition cache_fanout :: "slot \<Rightarrow> slot" where
  "cache_fanout n = min (2 * MAX_FANOUT_SLOTS) n"

text \<open>\<open>update_all\<close> returns whether an RPC error was seen and whether the cluster was refreshed.\<close>

definition update_cluster ::
  "sdk \<Rightarrow> ('e + rpc_contact_info list) option \<Rightarrow> leader_tpu_cache \<Rightarrow> leader_tpu_cache \<times> bool \<times> bool" where
  "update_cluster k m c =
     (case m of
        None \<Rightarrow> (c, False, False)
      | Some (Inr cluster_nodes) \<Rightarrow>
          (c\<lparr>leader_tpu_map := extract_cluster_tpu_sockets k (protocol c) cluster_nodes\<rparr>, False, True)
      | Some (Inl err) \<Rightarrow> (c, True, False))"

definition update_epoch ::
  "slot \<Rightarrow> ('e + epoch_info) option \<Rightarrow> leader_tpu_cache \<Rightarrow> leader_tpu_cache" where
  "update_epoch est_slot m c =
     (case m of
        Some (Inr info) \<Rightarrow>
          c\<lparr>slots_in_epoch := epoch_slots_in_epoch info,
            last_epoch_info_slot := est_slot\<rparr>
      | _ \<Rightarrow> c)"

definition update_leaders ::
  "slot \<Rightarrow> ('e + pubkey list) option \<Rightarrow> leader_tpu_cache \<Rightarrow> leader_tpu_cache \<times> bool" where
  "update_leaders est_slot m c =
     (case m of
        None \<Rightarrow> (c, False)
      | Some (Inr slot_leaders) \<Rightarrow>
          (c\<lparr>first_slot := est_slot, leaders := slot_leaders\<rparr>, False)
      | Some (Inl err) \<Rightarrow> (c, True))"

definition update_all ::
  "sdk \<Rightarrow> leader_tpu_cache \<Rightarrow> slot \<Rightarrow> 'e cache_update_info \<Rightarrow> leader_tpu_cache \<times> bool \<times> bool" where
  "update_all k c est_slot u =
     (let (c1, cluster_error, cluster_refreshed) = update_cluster k (maybe_cluster_nodes u) c;
          c2 = update_epoch est_slot (maybe_epoch_info u) c1;
          (c3, leaders_error) = update_leaders est_slot (maybe_slot_leaders u) c2
      in (c3, cluster_error \<or> leaders_error, cluster_refreshed))"

section \<open>Lemmas on the range and the loops\<close>

lemma set_steps_bounds: "x \<in> set (steps a b k) \<Longrightarrow> a \<le> x \<and> x < b"
proof (induction a b k rule: steps.induct)
  case (1 a b k)
  then show ?case
    by (subst (asm) (2) steps.simps) (auto split: if_splits)
qed

lemma steps_closed_form:
  assumes "0 < k"
  shows "steps a b k = map (\<lambda>i. a + i * k) [0..<(b - a + k - 1) div k]"
  using assms
proof (induction a b k rule: steps.induct)
  case (1 a b k)
  show ?case
  proof (cases "a < b")
    case True
    let ?n = "(b - (a + k) + k - 1) div k"
    have n: "(b - a + k - 1) div k = Suc ?n"
    proof (cases "b - a \<le> k")
      case True
      with \<open>a < b\<close> have e: "b - a + k - 1 = k + (b - a - 1)" and "b - a - 1 < k" by simp_all
      then have "(b - a + k - 1) div k = Suc 0"
        unfolding e using \<open>0 < k\<close> by (simp add: div_add_self1 del: diff_Suc_eq_diff_pred)
      with True \<open>0 < k\<close> show ?thesis by simp
    next
      case False
      then have e: "b - a + k - 1 = k + (b - (a + k) + k - 1)"
        using \<open>a < b\<close> \<open>0 < k\<close> by linarith
      show ?thesis
        unfolding e using \<open>0 < k\<close> by (simp only: div_add_self1 neq0_conv Suc_eq_plus1)
    qed
    have "steps a b k = a # map (\<lambda>i. a + k + i * k) [0..<?n]"
      using True 1 by (subst steps.simps) simp
    also have "\<dots> = map (\<lambda>i. a + i * k) [0..<Suc ?n]"
      by (simp add: upt_conv_Cons map_Suc_upt[symmetric] del: upt_Suc)
    finally show ?thesis by (simp only: n)
  next
    case False
    then show ?thesis using 1 by (subst steps.simps) simp
  qed
qed

lemma length_steps: "0 < k \<Longrightarrow> length (steps a b k) = (b - a + k - 1) div k"
  by (simp add: steps_closed_form)

text \<open>A slot past the cache is unknown, and then the warning's \<open>last_slot()\<close> fits 64 bits.\<close>

lemma get_slot_leader_None_iff:
  "get_slot_leader c s = None \<longleftrightarrow>
     s < first_slot c \<or> length (leaders c) \<le> unat s - unat (first_slot c)"
  by (auto simp: get_slot_leader_def Let_def rust_arith not_less not_le)

lemma get_slot_leader_Some_iff:
  "get_slot_leader c s = Some l \<longleftrightarrow>
     first_slot c \<le> s \<and> unat s - unat (first_slot c) < length (leaders c)
     \<and> leaders c ! (unat s - unat (first_slot c)) = l"
  by (auto simp: get_slot_leader_def Let_def rust_arith)

lemma last_slot_of_unknown:
  assumes "get_slot_leader c s = None" and "first_slot c \<le> s"
  shows "\<exists>l. last_slot p c = Return l"
proof -
  have "length (leaders c) \<le> unat s - unat (first_slot c)"
    using assms by (auto simp: get_slot_leader_None_iff)
  moreover have "unat (first_slot c) \<le> unat s"
    using assms(2) by (simp add: word_le_nat_alt)
  ultimately have b: "unat (first_slot c) + (length (leaders c) - 1) < 2 ^ 64"
    using unat_u64_lt[of s] by simp
  then have "unat (of_nat (length (leaders c) - 1) :: u64) = length (leaders c) - 1"
    by (simp add: unat_of_nat)
  with b show ?thesis by (simp add: last_slot_def rust_arith)
qed

definition slot_socket :: "leader_tpu_cache \<Rightarrow> slot \<Rightarrow> socket_addr option" where
  "slot_socket c s =
     (case get_slot_leader c s of None \<Rightarrow> None | Some leader \<Rightarrow> leader_tpu_map c leader)"

lemma leader_sockets_loop_eq:
  assumes "\<forall>s \<in> set ss. first_slot c \<le> s"
  shows "leader_sockets_loop p c acc ss = Return (acc @ List.map_filter (slot_socket c) ss)"
  using assms
proof (induction ss arbitrary: acc)
  case Nil
  then show ?case by (simp add: map_filter_simps)
next
  case (Cons s ss)
  show ?case
  proof (cases "get_slot_leader c s")
    case None
    then obtain l where "last_slot p c = Return l"
      using last_slot_of_unknown Cons.prems by fastforce
    with None Cons show ?thesis by (simp add: slot_socket_def map_filter_simps)
  next
    case (Some leader)
    with Cons show ?thesis
      by (auto simp: slot_socket_def map_filter_simps split: option.splits)
  qed
qed

lemma unique_loop_snoc:
  "unique_loop u seen (xs @ [x]) =
     (if x \<in> seen \<union> set xs then unique_loop u seen xs else unique_loop u seen xs @ [x])"
  by (induction u seen xs rule: unique_loop.induct) auto

lemma unique_loop_eq: "unique_loop [] {} xs = rev (remdups (rev xs))"
  by (induction xs rule: rev_induct) (simp_all add: unique_loop_snoc)

lemma collect_map_eq: "collect_map kvs = map_of (rev kvs)"
  by (induction kvs rule: rev_induct) (simp_all add: collect_map_def split_beta fun_upd_def)

section \<open>The leader slots of a fanout window\<close>

text \<open>The slots \<open>cur, cur + n, cur + 2n, \<dots>\<close> below \<open>cur + fanout\<close>, \<open>n\<close> consecutive slots per leader.\<close>

definition fanout_leader_slots :: "sdk \<Rightarrow> slot \<Rightarrow> u64 \<Rightarrow> slot list" where
  "fanout_leader_slots k cur fanout =
     (let n = unat (num_consecutive_leader_slots k)
      in map (\<lambda>i. cur + of_nat (i * n)) [0..<(unat fanout + n - 1) div n])"

lemma ceiling_div_less_iff:
  fixes i f n :: nat
  assumes "0 < n"
  shows "i < (f + n - 1) div n \<longleftrightarrow> i * n < f"
proof -
  have "i < (f + n - 1) div n \<longleftrightarrow> Suc i \<le> (f + n - 1) div n"
    by (simp add: Suc_le_eq)
  also have "\<dots> \<longleftrightarrow> Suc i * n \<le> f + n - 1"
    using assms by (simp only: less_eq_div_iff_mult_less_eq)
  also have "\<dots> \<longleftrightarrow> i * n < f"
    using assms by auto
  finally show ?thesis .
qed

lemma set_fanout_leader_slots:
  assumes "0 < num_consecutive_leader_slots k"
  shows "s \<in> set (fanout_leader_slots k cur fanout) \<longleftrightarrow>
    (\<exists>i. i * unat (num_consecutive_leader_slots k) < unat fanout
       \<and> s = cur + of_nat (i * unat (num_consecutive_leader_slots k)))"
proof -
  have "0 < unat (num_consecutive_leader_slots k)"
    using assms by (simp add: word_less_nat_alt)
  then show ?thesis
    unfolding fanout_leader_slots_def Let_def set_map set_upt image_iff
    by (auto simp only: ceiling_div_less_iff atLeastLessThan_iff)
qed

lemma unat_fanout_slot:
  fixes cur :: u64
  assumes "unat cur + m < 2 ^ 64"
  shows "unat (cur + of_nat m) = unat cur + m"
proof -
  have "unat (of_nat m :: u64) = m"
    using assms by (simp add: unat_of_nat)
  then show ?thesis using assms by (simp add: rust_arith)
qed

lemma fanout_leader_slots_bounds:
  assumes "0 < num_consecutive_leader_slots k" and "unat cur + unat fanout < 2 ^ 64"
    and "s \<in> set (fanout_leader_slots k cur fanout)"
  shows "cur \<le> s \<and> unat s < unat cur + unat fanout"
proof -
  let ?n = "unat (num_consecutive_leader_slots k)"
  obtain i where i: "i * ?n < unat fanout" and s: "s = cur + of_nat (i * ?n)"
    using assms(3) set_fanout_leader_slots[OF assms(1)] by blast
  have "unat s = unat cur + i * ?n"
    unfolding s by (rule unat_fanout_slot) (use i assms(2) in linarith)
  with i show ?thesis by (simp add: word_le_nat_alt)
qed

lemma get_leader_sockets_fits:
  assumes k: "0 < num_consecutive_leader_slots k"
    and fits: "unat (max est_slot (first_slot c)) + unat fanout < 2 ^ 64"
  shows "get_leader_sockets k p c est_slot fanout =
    Return (List.map_filter (slot_socket c)
      (fanout_leader_slots k (max est_slot (first_slot c)) fanout))"
proof -
  let ?cur = "max est_slot (first_slot c)"
  let ?n = "unat (num_consecutive_leader_slots k)"
  have n: "0 < ?n" using k by (simp add: word_less_nat_alt)
  have u: "unat (?cur + fanout) = unat ?cur + unat fanout"
    using fits by (simp add: rust_arith)
  have st: "map of_nat (steps (unat ?cur) (unat ?cur + unat fanout) ?n) = fanout_leader_slots k ?cur fanout"
    by (simp only: steps_closed_form[OF n] fanout_leader_slots_def Let_def map_map comp_def
        of_nat_add of_nat_unat ucast_id add_diff_cancel_left')
  have "?n \<noteq> 0" using n by simp
  then have "step_by_range ?cur (?cur + fanout) ?n = Return (fanout_leader_slots k ?cur fanout)"
    unfolding step_by_range_def u st by (rule if_not_P)
  moreover have "\<forall>s \<in> set (fanout_leader_slots k ?cur fanout). first_slot c \<le> s"
  proof
    fix s
    assume "s \<in> set (fanout_leader_slots k ?cur fanout)"
    then have "?cur \<le> s" using fanout_leader_slots_bounds[OF k fits] by blast
    then show "first_slot c \<le> s" by simp
  qed
  moreover have "add_w p ?cur fanout = Return (?cur + fanout)"
    by (rule add_w_fits) (use fits in simp)
  ultimately show ?thesis
    by (simp only: get_leader_sockets_def Let_def bind_outcome.simps leader_sockets_loop_eq
        append_Nil)
qed

lemma get_leader_sockets_wraps:
  assumes k: "0 < num_consecutive_leader_slots k"
    and big: "2 ^ 64 \<le> unat (max est_slot (first_slot c)) + unat fanout"
  shows "get_leader_sockets k p c est_slot fanout =
    (if p = Checked then Panic ArithmeticOverflow else Return [])"
proof -
  let ?cur = "max est_slot (first_slot c)"
  have "unat (?cur + fanout) = (unat ?cur + unat fanout) mod 2 ^ 64"
    by (simp add: unat_word_ariths)
  also have "\<dots> = unat ?cur + unat fanout - 2 ^ 64"
    using big unat_u64_lt[of ?cur] unat_u64_lt[of fanout] by (simp add: mod_if)
  finally have "unat (?cur + fanout) \<le> unat ?cur"
    using unat_u64_lt[of fanout] by simp
  then have "steps (unat ?cur) (unat (?cur + fanout)) m = []" for m
    by (subst steps.simps) simp
  then show ?thesis
    using big k by (simp add: get_leader_sockets_def Let_def add_w_def step_by_range_def
        word_less_nat_alt)
qed

lemma get_unique_leader_sockets_fits:
  assumes "0 < num_consecutive_leader_slots k"
    and "unat (max est_slot (first_slot c)) + unat fanout < 2 ^ 64"
  shows "get_unique_leader_sockets k p c est_slot fanout =
    Return (rev (remdups (rev (List.map_filter (slot_socket c)
      (fanout_leader_slots k (max est_slot (first_slot c)) fanout)))))"
  using assms by (simp add: get_unique_leader_sockets_def get_leader_sockets_fits unique_loop_eq)

lemma set_map_filter_iff: "y \<in> set (List.map_filter f xs) \<longleftrightarrow> (\<exists>x \<in> set xs. f x = Some y)"
  by (auto simp: List.map_filter_def image_iff)

lemma length_map_filter_le: "length (List.map_filter f xs) \<le> length xs"
  by (simp add: List.map_filter_def)

section \<open>Interfaces\<close>

text \<open>
  A contiguous leader schedule: nothing is known below its start, and whatever lies between
  its start and a known slot is known. The refresher relies on it to decide that a window of
  upcoming slots needs no new schedule.
\<close>

locale leader_schedule =
  fixes leader_of :: "'c \<Rightarrow> slot \<Rightarrow> 'k option"
    and start :: "'c \<Rightarrow> slot"
    and last_known :: "'c \<Rightarrow> slot outcome"
  assumes below_start: "s < start c \<Longrightarrow> leader_of c s = None"
    and downward: "leader_of c t = Some l \<Longrightarrow> start c \<le> s \<Longrightarrow> s \<le> t \<Longrightarrow> leader_of c s \<noteq> None"
    and last_is_known: "last_known c = Return t \<Longrightarrow> start c < t \<Longrightarrow> leader_of c t \<noteq> None"
begin

lemma known_from_start: "leader_of c s = Some l \<Longrightarrow> start c \<le> s"
  using below_start[of s c] by (cases "s < start c") auto

lemma covered_window:
  assumes "last_known c = Return t" and "start c \<le> s" and "s < t"
    and "s \<le> u" and "unat u < unat s + unat fanout" and "unat s + unat fanout \<le> unat t + 1"
  shows "leader_of c u \<noteq> None"
proof -
  have "leader_of c t \<noteq> None"
    by (rule last_is_known[OF assms(1)]) (use assms(2,3) in simp)
  then obtain l where "leader_of c t = Some l" by blast
  moreover have "u \<le> t" using assms(5,6) by (simp add: word_le_nat_alt)
  moreover have "start c \<le> u" using assms(2,4) by simp
  ultimately show ?thesis by (blast dest: downward)
qed

end

text \<open>
  A source of socket addresses for a window of slots: it never repeats an address, and every
  address is one the directory holds. The sending client relies on it to send once per address.
\<close>

locale socket_source =
  fixes sockets :: "'c \<Rightarrow> slot \<Rightarrow> u64 \<Rightarrow> 'a list outcome"
    and directory :: "'c \<Rightarrow> 'a set"
  assumes sockets_distinct: "sockets c s n = Return xs \<Longrightarrow> distinct xs"
    and sockets_known: "sockets c s n = Return xs \<Longrightarrow> set xs \<subseteq> directory c"
begin

lemma sockets_card:
  assumes "sockets c s n = Return xs" and "finite (directory c)"
  shows "length xs \<le> card (directory c)"
  using assms sockets_distinct[of c s n xs] sockets_known[of c s n xs]
  by (metis card_mono distinct_card)

lemma empty_directory: "directory c = {} \<Longrightarrow> sockets c s n = Return xs \<Longrightarrow> xs = []"
  using sockets_known[of c s n xs] by simp

end

lemma last_slot_Return:
  assumes "last_slot p c = Return t" and "first_slot c < t"
  shows "get_slot_leader c t \<noteq> None"
proof -
  let ?m = "length (leaders c) - 1"
  have t: "t = first_slot c + of_nat ?m"
    using assms(1) by (simp add: last_slot_def add_w_def split: if_splits)
  have "unat (t - first_slot c) = unat (of_nat ?m :: u64)" by (simp add: t)
  then have "unat t - unat (first_slot c) \<le> ?m"
    using assms(2) by (simp add: rust_arith unat_of_nat)
  moreover have "leaders c \<noteq> []"
    using assms(2) t by auto
  ultimately show ?thesis
    using assms(2) by (auto simp: get_slot_leader_None_iff neq_Nil_conv)
qed

interpretation sched: leader_schedule get_slot_leader first_slot "last_slot p" for p
proof unfold_locales
  show "get_slot_leader c s = None" if "s < first_slot c" for s c
    using that by (simp add: get_slot_leader_None_iff)
  show "get_slot_leader c s \<noteq> None"
    if "get_slot_leader c t = Some l" "first_slot c \<le> s" "s \<le> t" for c t l s
    using that by (auto simp: get_slot_leader_Some_iff get_slot_leader_None_iff word_le_nat_alt
        not_less simp flip: not_le)
  show "get_slot_leader c t \<noteq> None" if "last_slot p c = Return t" "first_slot c < t" for c t
    by (rule last_slot_Return) (rule that)+
qed

lemma leader_sockets_loop_ran:
  "leader_sockets_loop p c acc ss = Return xs \<Longrightarrow> set xs \<subseteq> set acc \<union> ran (leader_tpu_map c)"
proof (induction p c acc ss rule: leader_sockets_loop.induct)
  case (1 p c acc)
  then show ?case by simp
next
  case (2 p c acc s ss)
  then show ?case
    by (auto simp: ranI bind_outcome_Return_iff split: option.splits) (force simp: ranI)+
qed

interpretation usock: socket_source "get_unique_leader_sockets k p" "\<lambda>c. ran (leader_tpu_map c)"
  for k p
proof unfold_locales
  fix c s n xs
  assume "get_unique_leader_sockets k p c s n = Return xs"
  then obtain ys where ys: "get_leader_sockets k p c s n = Return ys"
      and xs: "xs = rev (remdups (rev ys))"
    by (auto simp: get_unique_leader_sockets_def bind_outcome_Return_iff unique_loop_eq)
  show "distinct xs" by (simp add: xs)
  show "set xs \<subseteq> ran (leader_tpu_map c)"
    using ys leader_sockets_loop_ran[where acc = "[]"]
    by (fastforce simp: xs get_leader_sockets_def Let_def bind_outcome_Return_iff)
qed

text \<open>
  Sorted, the result is the ordered list of the set of addresses: an executable reference for the
  fan-out that no longer depends on the order of the schedule.
\<close>

definition reference_sockets :: "sdk \<Rightarrow> leader_tpu_cache \<Rightarrow> slot \<Rightarrow> u64 \<Rightarrow> socket_addr list" where
  "reference_sockets k c cur fanout =
     sorted_list_of_set (set (List.map_filter (slot_socket c) (fanout_leader_slots k cur fanout)))"

lemma unique_sockets_reference:
  assumes "0 < num_consecutive_leader_slots k"
    and "unat (max est_slot (first_slot c)) + unat fanout < 2 ^ 64"
  shows "\<exists>xs. get_unique_leader_sockets k p c est_slot fanout = Return xs
    \<and> sort xs = reference_sockets k c (max est_slot (first_slot c)) fanout"
proof -
  let ?ys = "List.map_filter (slot_socket c) (fanout_leader_slots k (max est_slot (first_slot c)) fanout)"
  obtain xs where xs: "get_unique_leader_sockets k p c est_slot fanout = Return xs" "set xs = set ?ys"
    unfolding get_unique_leader_sockets_fits[OF assms] by simp
  have "sort xs = sorted_list_of_set (set xs)"
    using usock.sockets_distinct[OF xs(1)]
    by (simp add: sorted_list_of_set_sort_remdups distinct_remdups_id)
  then show ?thesis using xs by (simp add: reference_sockets_def)
qed

section \<open>Lemmas on the updates\<close>

lemma update_all_frame:
  "protocol (fst (update_all k c e u)) = protocol c"
  by (auto simp: update_all_def update_cluster_def update_epoch_def update_leaders_def
      split: option.splits sum.splits)

lemma update_all_fields:
  "leader_tpu_map (fst (update_all k c e u)) =
     (case maybe_cluster_nodes u of
        Some (Inr ns) \<Rightarrow> extract_cluster_tpu_sockets k (protocol c) ns | _ \<Rightarrow> leader_tpu_map c)"
  "first_slot (fst (update_all k c e u)) =
     (case maybe_slot_leaders u of Some (Inr ls) \<Rightarrow> e | _ \<Rightarrow> first_slot c)"
  "leaders (fst (update_all k c e u)) =
     (case maybe_slot_leaders u of Some (Inr ls) \<Rightarrow> ls | _ \<Rightarrow> leaders c)"
  "slots_in_epoch (fst (update_all k c e u)) =
     (case maybe_epoch_info u of Some (Inr i) \<Rightarrow> epoch_slots_in_epoch i | _ \<Rightarrow> slots_in_epoch c)"
  "last_epoch_info_slot (fst (update_all k c e u)) =
     (case maybe_epoch_info u of Some (Inr i) \<Rightarrow> e | _ \<Rightarrow> last_epoch_info_slot c)"
  by (auto simp: update_all_def update_cluster_def update_epoch_def update_leaders_def
      split: option.splits sum.splits)

lemma update_all_flags:
  "fst (snd (update_all k c e u)) \<longleftrightarrow>
     (\<exists>x. maybe_cluster_nodes u = Some (Inl x)) \<or> (\<exists>x. maybe_slot_leaders u = Some (Inl x))"
  "snd (snd (update_all k c e u)) \<longleftrightarrow> (\<exists>ns. maybe_cluster_nodes u = Some (Inr ns))"
  by (auto simp: update_all_def update_cluster_def update_epoch_def update_leaders_def
      split: option.splits sum.splits)

lemmas update_all_facts = update_all_frame update_all_fields update_all_flags

lemma collect_map_Some_iff:
  "collect_map (List.map_filter f cs) key = Some v \<longleftrightarrow>
     (\<exists>xs c ys. cs = xs @ c # ys \<and> f c = Some (key, v) \<and> (\<forall>d \<in> set ys. \<forall>w. f d \<noteq> Some (key, w)))"
proof (induction cs rule: rev_induct)
  case Nil
  then show ?case by (simp add: collect_map_eq map_filter_simps)
next
  case (snoc d cs)
  have app: "List.map_filter f (cs @ [d]) =
      List.map_filter f cs @ (case f d of None \<Rightarrow> [] | Some kv \<Rightarrow> [kv])"
    by (simp add: List.map_filter_def split: option.split)
  have split_last: "(\<exists>xs c ys. cs @ [d] = xs @ c # ys \<and> f c = Some (key, v)
        \<and> (\<forall>d \<in> set ys. \<forall>w. f d \<noteq> Some (key, w))) \<longleftrightarrow>
      f d = Some (key, v) \<or> (\<forall>w. f d \<noteq> Some (key, w)) \<and>
        (\<exists>xs c ys. cs = xs @ c # ys \<and> f c = Some (key, v)
          \<and> (\<forall>d \<in> set ys. \<forall>w. f d \<noteq> Some (key, w)))" (is "?l \<longleftrightarrow> ?r")
  proof
    assume ?l
    then obtain xs c ys where s: "cs @ [d] = xs @ c # ys" "f c = Some (key, v)"
        "\<forall>d \<in> set ys. \<forall>w. f d \<noteq> Some (key, w)" by blast
    then show ?r by (cases ys rule: rev_cases) auto
  next
    assume ?r
    then show ?l
    proof
      assume "f d = Some (key, v)"
      then show ?l by (intro exI[of _ cs] exI[of _ d] exI[of _ "[]"]) simp
    next
      assume "(\<forall>w. f d \<noteq> Some (key, w)) \<and> (\<exists>xs c ys. cs = xs @ c # ys \<and> f c = Some (key, v)
          \<and> (\<forall>d \<in> set ys. \<forall>w. f d \<noteq> Some (key, w)))"
      then obtain xs c ys where "cs = xs @ c # ys" "f c = Some (key, v)"
          "\<forall>e \<in> set (ys @ [d]). \<forall>w. f e \<noteq> Some (key, w)" by auto
      then show ?l by (intro exI[of _ xs] exI[of _ c] exI[of _ "ys @ [d]"]) simp
    qed
  qed
  show ?case
    unfolding split_last snoc.IH[symmetric]
    by (cases "f d") (auto simp: app collect_map_eq)
qed

section \<open>Properties\<close>

text \<open>
  C4: What the sender is given: as long as the window of slots fits 64 bits, the read
  succeeds in both build profiles, no address is repeated, and an address is returned exactly
  when it is the TPU socket of the leader scheduled at one of the slots \<open>cur + i * n\<close> of the
  window, \<open>cur\<close> being the larger of the estimated slot and the start of the cached schedule.
\<close>
theorem unique_sockets_sound_and_complete:
  assumes "0 < num_consecutive_leader_slots k"
    and "unat (max est_slot (first_slot c)) + unat fanout < 2 ^ 64"
  shows "\<exists>xs. get_unique_leader_sockets k p c est_slot fanout = Return xs \<and> distinct xs
    \<and> (\<forall>a. a \<in> set xs \<longleftrightarrow>
        (\<exists>i leader. i * unat (num_consecutive_leader_slots k) < unat fanout
          \<and> get_slot_leader c (max est_slot (first_slot c)
              + of_nat (i * unat (num_consecutive_leader_slots k))) = Some leader
          \<and> leader_tpu_map c leader = Some a))"
proof -
  let ?cur = "max est_slot (first_slot c)" let ?n = "unat (num_consecutive_leader_slots k)"
  let ?ys = "List.map_filter (slot_socket c) (fanout_leader_slots k ?cur fanout)"
  have "a \<in> set ?ys \<longleftrightarrow> (\<exists>i leader. i * ?n < unat fanout
          \<and> get_slot_leader c (?cur + of_nat (i * ?n)) = Some leader
          \<and> leader_tpu_map c leader = Some a)" for a
    unfolding set_map_filter_iff bex_simps Bex_def set_fanout_leader_slots[OF assms(1)]
      slot_socket_def
    by (fastforce split: option.splits simp del: of_nat_mult)
  then show ?thesis
    unfolding get_unique_leader_sockets_fits[OF assms] by simp
qed

definition sample_sdk :: sdk where
  "sample_sdk = \<lparr>num_consecutive_leader_slots = 4, quic_port_offset = 6, default_ms_per_slot = 400,
     pubkey_from_str = (\<lambda>s. if s = ''A'' then Some 1 else if s = ''B'' then Some 2 else None)\<rparr>"

definition sample_cache :: leader_tpu_cache where
  "sample_cache = \<lparr>protocol = QUIC, first_slot = 100, leaders = [1, 1, 1, 1, 2, 2, 2, 2],
     leader_tpu_map = [1 \<mapsto> SocketV4 7 8009], slots_in_epoch = 432000, last_epoch_info_slot = 100\<rparr>"

theorem unique_sockets_sound_and_complete_witness:
  "\<exists>xs. get_unique_leader_sockets sample_sdk Checked sample_cache 90 8 = Return xs \<and> distinct xs
    \<and> SocketV4 7 8009 \<in> set xs"
proof -
  have "get_slot_leader sample_cache (max 90 (first_slot sample_cache)
      + of_nat (0 * unat (num_consecutive_leader_slots sample_sdk))) = Some 1"
    and "leader_tpu_map sample_cache 1 = Some (SocketV4 7 8009)"
    by (simp_all add: get_slot_leader_def sample_cache_def max_def)
  then show ?thesis
    using unique_sockets_sound_and_complete[of sample_sdk 90 sample_cache 8 Checked]
    by (force simp: sample_sdk_def sample_cache_def max_def)
qed

text \<open>
  The de-duplication keeps the first occurrence of every address, so the addresses come in
  the order in which their leaders are scheduled, and there are at most
  \<open>ceiling (fanout / n)\<close> of them.
\<close>
lemma unique_sockets_order_and_bound:
  assumes "0 < num_consecutive_leader_slots k"
    and "get_leader_sockets k p c est_slot fanout = Return ys"
    and "unat (max est_slot (first_slot c)) + unat fanout < 2 ^ 64"
  shows "get_unique_leader_sockets k p c est_slot fanout = Return (rev (remdups (rev ys)))
    \<and> length (rev (remdups (rev ys))) \<le>
        (unat fanout + unat (num_consecutive_leader_slots k) - 1)
          div unat (num_consecutive_leader_slots k)"
proof -
  let ?ss = "fanout_leader_slots k (max est_slot (first_slot c)) fanout"
  have "length ys \<le> length ?ss"
    using assms(2) get_leader_sockets_fits[OF assms(1,3)] length_map_filter_le by auto
  also have "length ?ss = (unat fanout + unat (num_consecutive_leader_slots k) - 1)
          div unat (num_consecutive_leader_slots k)"
    by (simp add: fanout_leader_slots_def Let_def)
  finally show ?thesis
    using assms(2) length_remdups_leq[of "rev ys"]
    by (simp add: get_unique_leader_sockets_def unique_loop_eq)
qed

lemma unique_sockets_order_and_bound_witness:
  "\<exists>ys. get_leader_sockets sample_sdk Wrapping sample_cache 90 8 = Return ys
    \<and> get_unique_leader_sockets sample_sdk Wrapping sample_cache 90 8 = Return (rev (remdups (rev ys)))
    \<and> length (rev (remdups (rev ys))) \<le> (unat (8 :: u64) + unat (4 :: u64) - 1) div unat (4 :: u64)"
proof -
  have h: "0 < num_consecutive_leader_slots sample_sdk"
      "unat (max 90 (first_slot sample_cache)) + unat (8 :: u64) < 2 ^ 64"
    by (simp_all add: sample_sdk_def sample_cache_def max_def)
  have n: "num_consecutive_leader_slots sample_sdk = 4" by (simp add: sample_sdk_def)
  obtain ys where ys: "get_leader_sockets sample_sdk Wrapping sample_cache 90 8 = Return ys"
    using get_leader_sockets_fits[OF h] by blast
  from unique_sockets_order_and_bound[OF h(1) ys h(2)] ys show ?thesis unfolding n by blast
qed

text \<open>
  C34: When the window does not fit 64 bits, a checked build panics and a build without overflow
  checks returns no address at all: the wrapped range is empty.
\<close>
theorem unique_sockets_near_top:
  assumes "0 < num_consecutive_leader_slots k"
    and "2 ^ 64 \<le> unat (max est_slot (first_slot c)) + unat fanout"
  shows "get_unique_leader_sockets k p c est_slot fanout =
    (if p = Checked then Panic ArithmeticOverflow else Return [])"
  using get_leader_sockets_wraps[OF assms, of p] by (simp add: get_unique_leader_sockets_def)

theorem unique_sockets_near_top_witness:
  "get_unique_leader_sockets sample_sdk Wrapping sample_cache (- 1) 8 = Return []"
proof -
  have "unat (max (- 1 :: u64) (first_slot sample_cache)) = 2 ^ 64 - 1"
    by (simp add: sample_cache_def max_def word_le_nat_alt unat_minus_one_val)
  then show ?thesis
    using unique_sockets_near_top[of sample_sdk "- 1" sample_cache 8 Wrapping]
    by (simp add: sample_sdk_def)
qed

text \<open>
  C20: After a successful schedule fetch is applied, slot \<open>e + i\<close> is led by the \<open>i\<close>-th fetched
  leader, \<open>e\<close> being the slot estimate passed to the update, and every other slot is unknown.
\<close>
theorem schedule_lookup_after_update:
  assumes "maybe_slot_leaders u = Some (Inr ls)" and "unat e + i < 2 ^ 64"
  shows "get_slot_leader (fst (update_all k c e u)) (e + of_nat i) =
      (if i < length ls then Some (ls ! i) else None)
    \<and> (\<forall>s. s < e \<longrightarrow> get_slot_leader (fst (update_all k c e u)) s = None)"
proof -
  let ?c = "fst (update_all k c e u)"
  have f: "first_slot ?c = e" "leaders ?c = ls"
    using assms(1) by (simp_all add: update_all_facts)
  have "unat (e + of_nat i) = unat e + i"
    by (rule unat_fanout_slot) (rule assms(2))
  then have "get_slot_leader ?c (e + of_nat i) = (if i < length ls then Some (ls ! i) else None)"
    using f by (cases "i < length ls")
      (simp_all add: get_slot_leader_Some_iff get_slot_leader_None_iff word_le_nat_alt)
  moreover have "get_slot_leader ?c s = None" if "s < e" for s
    using that f by (simp add: get_slot_leader_None_iff)
  ultimately show ?thesis by blast
qed

theorem schedule_lookup_after_update_witness:
  "get_slot_leader (fst (update_all sample_sdk sample_cache 500
      \<lparr>maybe_cluster_nodes = None, maybe_epoch_info = None,
        maybe_slot_leaders = Some (Inr [7, 8, 9] :: nat + pubkey list)\<rparr>)) (500 + of_nat 1) = Some 8"
  using schedule_lookup_after_update[of "\<lparr>maybe_cluster_nodes = None, maybe_epoch_info = None,
        maybe_slot_leaders = Some (Inr [7, 8, 9] :: nat + pubkey list)\<rparr>" "[7, 8, 9]" 500 1
      sample_sdk sample_cache]
  by simp

text \<open>
  \<open>update_all\<close> reports an error exactly when the cluster-nodes or the slot-leaders call
  failed (a failed epoch-info call is not reported) and a refreshed cluster exactly when the
  cluster-nodes call succeeded; a call that was not made or failed leaves its fields as they
  were, so a failed refresh keeps serving the previous schedule and sockets.
\<close>
lemma update_all_flags_and_frame:
  "(fst (snd (update_all k c e u)) \<longleftrightarrow>
      (\<exists>x. maybe_cluster_nodes u = Some (Inl x)) \<or> (\<exists>x. maybe_slot_leaders u = Some (Inl x)))
   \<and> (snd (snd (update_all k c e u)) \<longleftrightarrow> (\<exists>ns. maybe_cluster_nodes u = Some (Inr ns)))
   \<and> protocol (fst (update_all k c e u)) = protocol c
   \<and> leader_tpu_map (fst (update_all k c e u)) =
      (case maybe_cluster_nodes u of
         Some (Inr ns) \<Rightarrow> extract_cluster_tpu_sockets k (protocol c) ns
       | _ \<Rightarrow> leader_tpu_map c)
   \<and> (first_slot (fst (update_all k c e u)), leaders (fst (update_all k c e u))) =
      (case maybe_slot_leaders u of
         Some (Inr ls) \<Rightarrow> (e, ls) | _ \<Rightarrow> (first_slot c, leaders c))
   \<and> (slots_in_epoch (fst (update_all k c e u)), last_epoch_info_slot (fst (update_all k c e u))) =
      (case maybe_epoch_info u of
         Some (Inr i) \<Rightarrow> (epoch_slots_in_epoch i, e)
       | _ \<Rightarrow> (slots_in_epoch c, last_epoch_info_slot c))"
  by (auto simp: update_all_facts split: option.splits sum.splits)


text \<open>
  Over QUIC a contact's socket is its advertised QUIC socket, and otherwise its plain TPU
  socket at the port plus the QUIC offset, and there is none when that port exceeds 16 bits:
  the port never wraps around.
\<close>
lemma quic_socket_choice:
  "contact_entry k QUIC c = Some (pk, a) \<longleftrightarrow>
    pubkey_from_str k (contact_pubkey c) = Some pk \<and>
    (contact_tpu_quic c = Some a \<or>
     contact_tpu_quic c = None \<and> (\<exists>t q. contact_tpu c = Some t
       \<and> unat (socket_port t) + unat (quic_port_offset k) < 2 ^ 16
       \<and> unat q = unat (socket_port t) + unat (quic_port_offset k)
       \<and> a = set_port t q))"
  by (cases "contact_tpu_quic c")
     (auto simp: contact_entry_def quic_socket_def split: option.splits
       dest!: checked_add_Some_iff[THEN iffD1] checked_add_None_iff[THEN iffD1],
      metis word_unat_eq_iff)

end
