(* ===== verification/Leader_Service.thy ===== *)
theory Leader_Service
  imports Leader_Cache
begin

text \<open>
  \<open>LeaderTpuService\<close> of \<open>src/src/engine/backend_tpu_client.rs\<close>: its construction, the slot
  watcher, the cache refresher with \<open>maybe_fetch_cache_info\<close>, and the reads the sender makes.
  The RPC node, the clock and the slot notifications are the fields of a parameter \<open>rpc_env\<close>
  over an abstract world. The watcher and the refresher run concurrently: every \<open>await\<close> of
  the refresher is followed by \<open>after_await\<close>, which applies the slot updates the watcher
  handled meanwhile. The cache lock carries its poison flag, because a panic while the write
  guard is held makes every later \<open>read().unwrap()\<close> panic.
\<close>

section \<open>Errors\<close>

datatype rpc_error = RpcResponseError int string | OtherRpcError string

datatype error_kind = RpcErrorKind rpc_error | OtherErrorKind string

record client_error =
  client_error_kind :: error_kind

datatype 'pe tpu_sender_error =
    PubsubError 'pe
  | RpcError client_error
  | IoError string
  | SignerError string
  | Custom string

text \<open>\<open>str::contains\<close>: the pattern is a contiguous part of the message.\<close>

fun starts_with :: "string \<Rightarrow> string \<Rightarrow> bool" where
  "starts_with [] s = True"
| "starts_with (a # as) [] = False"
| "starts_with (a # as) (b # bs) = (a = b \<and> starts_with as bs)"

fun str_contains :: "string \<Rightarrow> string \<Rightarrow> bool" where
  "str_contains [] pat = (pat = [])"
| "str_contains (c # s) pat = (starts_with pat (c # s) \<or> str_contains s pat)"

definition is_invalid_slot_range_error :: "client_error \<Rightarrow> bool" where
  "is_invalid_slot_range_error e =
     (case client_error_kind e of
        RpcErrorKind (RpcResponseError code message) \<Rightarrow>
          code = - 32602
          \<and> str_contains message ''Invalid slot range: leader schedule for epoch''
      | _ \<Rightarrow> False)"

section \<open>Slot notifications\<close>

datatype slot_update =
    Completed slot
  | FirstShredReceived slot
  | OtherSlotUpdate

fun handle_slot_update :: "recent_leader_slots \<Rightarrow> slot_update \<Rightarrow> recent_leader_slots" where
  "handle_slot_update rs (Completed s) = record_slot rs (saturating_add s 1)"
| "handle_slot_update rs (FirstShredReceived s) = record_slot rs s"
| "handle_slot_update rs OtherSlotUpdate = rs"

definition drain_updates :: "recent_leader_slots \<Rightarrow> slot_update list \<Rightarrow> recent_leader_slots" where
  "drain_updates rs us = foldl handle_slot_update rs us"

text \<open>
  The watcher's outer loop. One element of the list is one turn: the value of the exit flag the
  loop reads, and the updates the inner \<open>while let\<close> drains before a poll times out or the
  stream has ended. The flag of the result says whether the loop has stopped.
\<close>

fun slot_watcher_loop ::
  "(bool \<times> slot_update list) list \<Rightarrow> recent_leader_slots \<Rightarrow> recent_leader_slots \<times> bool" where
  "slot_watcher_loop [] rs = (rs, False)"
| "slot_watcher_loop ((exit, updates) # turns) rs =
     (if exit then (rs, True) else slot_watcher_loop turns (drain_updates rs updates))"

text \<open>
  \<open>run_slot_watcher\<close>: without a pubsub client it returns at once; a failed subscription is its
  error; after the loop the connection is shut down, whose failure is its error. A result
  \<open>None\<close> is a watcher still running.
\<close>

definition run_slot_watcher ::
  "bool \<Rightarrow> 'pe option \<Rightarrow> (bool \<times> slot_update list) list \<Rightarrow> 'pe option \<Rightarrow> recent_leader_slots
    \<Rightarrow> ('pe tpu_sender_error + unit) option \<times> recent_leader_slots" where
  "run_slot_watcher has_pubsub subscribe_error turns shutdown_error rs =
     (if \<not> has_pubsub then (Some (Inr ()), rs)
      else (case subscribe_error of
        Some e \<Rightarrow> (Some (Inl (PubsubError e)), rs)
      | None \<Rightarrow>
          (case slot_watcher_loop turns rs of
             (rs', False) \<Rightarrow> (None, rs')
           | (rs', True) \<Rightarrow>
               (case shutdown_error of
                  Some e \<Rightarrow> (Some (Inl (PubsubError e)), rs')
                | None \<Rightarrow> (Some (Inr ()), rs')))))"

section \<open>The service\<close>

datatype 'pe task_end = TaskPanicked | TaskReturned "'pe tpu_sender_error + unit"

record leader_tpu_service =
  recent_slots :: recent_leader_slots
  tpu_cache :: leader_tpu_cache
  cache_poisoned :: bool
  task_spawned :: bool

record 'w rpc_env =
  rpc_get_slot :: "'w \<Rightarrow> (client_error + slot) \<times> 'w"
  rpc_get_epoch_info :: "'w \<Rightarrow> (client_error + epoch_info) \<times> 'w"
  rpc_get_slot_leaders :: "slot \<Rightarrow> u64 \<Rightarrow> 'w \<Rightarrow> (client_error + pubkey list) \<times> 'w"
  rpc_get_cluster_nodes :: "'w \<Rightarrow> (client_error + rpc_contact_info list) \<times> 'w"
  rpc_sleep :: "nat \<Rightarrow> 'w \<Rightarrow> 'w"
  rpc_now_ms :: "'w \<Rightarrow> nat"
  rpc_exit :: "'w \<Rightarrow> bool"
  rpc_delivered :: "'w \<Rightarrow> slot_update list \<times> 'w"

definition service_estimated_current_slot :: "profile \<Rightarrow> leader_tpu_service \<Rightarrow> slot outcome" where
  "service_estimated_current_slot p svc = estimated_current_slot p (recent_slots svc)"

definition unique_leader_tpu_sockets ::
  "sdk \<Rightarrow> profile \<Rightarrow> leader_tpu_service \<Rightarrow> u64 \<Rightarrow> socket_addr list outcome" where
  "unique_leader_tpu_sockets k p svc fanout_slots =
     bind_outcome (estimated_current_slot p (recent_slots svc)) (\<lambda>current_slot.
       if cache_poisoned svc then Panic UnwrapFailed
       else get_unique_leader_sockets k p (tpu_cache svc) current_slot fanout_slots)"

definition leader_tpu_sockets ::
  "sdk \<Rightarrow> profile \<Rightarrow> leader_tpu_service \<Rightarrow> u64 \<Rightarrow> socket_addr list outcome" where
  "leader_tpu_sockets k p svc fanout_slots =
     bind_outcome (estimated_current_slot p (recent_slots svc)) (\<lambda>current_slot.
       if cache_poisoned svc then Panic UnwrapFailed
       else get_leader_sockets k p (tpu_cache svc) current_slot fanout_slots)"

text \<open>
  \<open>join\<close>: awaits the task if there is one, and panics when the task panicked or returned an
  error; the handle is taken, so a second call does nothing.
\<close>

definition join_service ::
  "'pe task_end \<Rightarrow> leader_tpu_service \<Rightarrow> unit outcome \<times> leader_tpu_service" where
  "join_service task_end svc =
     (if task_spawned svc then
        ((case task_end of TaskReturned (Inr u) \<Rightarrow> Return () | _ \<Rightarrow> Panic UnwrapFailed),
         svc\<lparr>task_spawned := False\<rparr>)
      else (Return (), svc))"

section \<open>Construction\<close>

text \<open>
  The retry loop for the slot leaders inside \<open>timeout(20s, ..)\<close>. The inner result \<open>None\<close> is
  an elapsed timeout, which drops the pending call; the outer \<open>None\<close> is spent fuel.
\<close>

fun fetch_leaders ::
  "nat \<Rightarrow> 'w rpc_env \<Rightarrow> nat \<Rightarrow> slot \<Rightarrow> u64 \<Rightarrow> 'w
    \<Rightarrow> ((client_error + pubkey list) option \<times> 'w) option" where
  "fetch_leaders 0 env deadline start_slot n w = None"
| "fetch_leaders (Suc fuel) env deadline start_slot n w =
     (let (r, w1) = rpc_get_slot_leaders env start_slot n w in
      if deadline < rpc_now_ms env w1 then Some (None, w1)
      else (case r of
        Inr ls \<Rightarrow> Some (Some (Inr ls), w1)
      | Inl client_error \<Rightarrow>
          if is_invalid_slot_range_error client_error then
            (let w2 = rpc_sleep env 1000 w1 in
             if deadline < rpc_now_ms env w2 then Some (None, w2)
             else fetch_leaders fuel env deadline start_slot n w2)
          else Some (Some (Inl client_error), w1)))"

text \<open>
  \<open>LeaderTpuService::new\<close>. \<open>pubsub_result\<close> is what \<open>PubsubClient::new\<close> returns for the URL.
  The failures of the first, second and fourth RPC call and of the pubsub client are returned
  as errors; a failure or a timeout of the leaders loop panics.
\<close>

definition new_leader_service ::
  "nat \<Rightarrow> sdk \<Rightarrow> 'w rpc_env \<Rightarrow> (string \<Rightarrow> 'pe option) \<Rightarrow> string \<Rightarrow> protocol \<Rightarrow> 'w
    \<Rightarrow> (('pe tpu_sender_error + leader_tpu_service) outcome \<times> 'w) option" where
  "new_leader_service fuel k env pubsub_result websocket_url proto w =
     (case rpc_get_slot env w of
        (Inl e, w1) \<Rightarrow> Some (Return (Inl (RpcError e)), w1)
      | (Inr start_slot, w1) \<Rightarrow>
     (case rpc_get_epoch_info env w1 of
        (Inl e, w2) \<Rightarrow> Some (Return (Inl (RpcError e)), w2)
      | (Inr info, w2) \<Rightarrow>
     (case fetch_leaders fuel env (rpc_now_ms env w2 + 20000) start_slot
             (cache_fanout (epoch_slots_in_epoch info)) w2 of
        None \<Rightarrow> None
      | Some (None, w3) \<Rightarrow> Some (Panic UnwrapFailed, w3)
      | Some (Some (Inl e), w3) \<Rightarrow> Some (Panic UnwrapFailed, w3)
      | Some (Some (Inr ls), w3) \<Rightarrow>
     (case rpc_get_cluster_nodes env w3 of
        (Inl e, w4) \<Rightarrow> Some (Return (Inl (RpcError e)), w4)
      | (Inr nodes, w4) \<Rightarrow>
     (case (if websocket_url = [] then None else pubsub_result websocket_url) of
        Some e \<Rightarrow> Some (Return (Inl (PubsubError e)), w4)
      | None \<Rightarrow>
          Some (Return (Inr \<lparr>recent_slots = new_recent_slots start_slot,
                  tpu_cache = new_leader_cache k start_slot (epoch_slots_in_epoch info) ls nodes proto,
                  cache_poisoned = False, task_spawned = True\<rparr>), w4))))))"

section \<open>The cache refresher\<close>

definition after_await :: "'w rpc_env \<Rightarrow> recent_leader_slots \<Rightarrow> 'w \<Rightarrow> recent_leader_slots \<times> 'w" where
  "after_await env rs w = (let (us, w') = rpc_delivered env w in (drain_updates rs us, w'))"

text \<open>The three optional calls of \<open>maybe_fetch_cache_info\<close>, each with its \<open>await\<close>.\<close>

definition fetch_cluster_nodes ::
  "'w rpc_env \<Rightarrow> nat \<Rightarrow> recent_leader_slots \<Rightarrow> 'w
    \<Rightarrow> (client_error + rpc_contact_info list) option \<times> recent_leader_slots \<times> 'w" where
  "fetch_cluster_nodes env last_cluster_refresh rs w =
     (if 5 * 60 * 1000 < rpc_now_ms env w - last_cluster_refresh then
        (let (r, w1) = rpc_get_cluster_nodes env w; (rs1, w2) = after_await env rs w1
         in (Some r, rs1, w2))
      else (None, rs, w))"

definition needs_epoch_info :: "slot \<Rightarrow> slot \<Rightarrow> slot \<Rightarrow> bool" where
  "needs_epoch_info estimate last_epoch_slot n \<longleftrightarrow> saturating_sub last_epoch_slot n \<le> estimate"

definition fetch_epoch_info ::
  "'w rpc_env \<Rightarrow> bool \<Rightarrow> recent_leader_slots \<Rightarrow> 'w
    \<Rightarrow> (client_error + epoch_info) option \<times> recent_leader_slots \<times> 'w" where
  "fetch_epoch_info env needed rs w =
     (if needed then
        (let (r, w1) = rpc_get_epoch_info env w; (rs1, w2) = after_await env rs w1
         in (Some r, rs1, w2))
      else (None, rs, w))"

definition needs_slot_leaders :: "slot \<Rightarrow> slot \<Rightarrow> bool" where
  "needs_slot_leaders estimate last_cached \<longleftrightarrow> saturating_sub last_cached MAX_FANOUT_SLOTS \<le> estimate"

definition fetch_slot_leaders ::
  "'w rpc_env \<Rightarrow> bool \<Rightarrow> slot \<Rightarrow> u64 \<Rightarrow> recent_leader_slots \<Rightarrow> 'w
    \<Rightarrow> (client_error + pubkey list) option \<times> recent_leader_slots \<times> 'w" where
  "fetch_slot_leaders env needed estimate n rs w =
     (if needed then
        (let (r, w1) = rpc_get_slot_leaders env estimate n w; (rs1, w2) = after_await env rs w1
         in (Some r, rs1, w2))
      else (None, rs, w))"

definition maybe_fetch_cache_info ::
  "profile \<Rightarrow> 'w rpc_env \<Rightarrow> leader_tpu_service \<Rightarrow> nat \<Rightarrow> 'w
    \<Rightarrow> client_error cache_update_info outcome \<times> leader_tpu_service \<times> 'w" where
  "maybe_fetch_cache_info p env svc last_cluster_refresh w =
     (let (cluster, rs1, w1) = fetch_cluster_nodes env last_cluster_refresh (recent_slots svc) w;
          svc1 = svc\<lparr>recent_slots := rs1\<rparr>
      in case estimated_current_slot p rs1 of
           Panic e \<Rightarrow> (Panic e, svc1, w1)
         | Return estimate \<Rightarrow>
             if cache_poisoned svc then (Panic UnwrapFailed, svc1, w1)
             else (case slot_info p (tpu_cache svc) of
               Panic e \<Rightarrow> (Panic e, svc1, w1)
             | Return (last_cached, last_epoch_slot, n) \<Rightarrow>
                 (let (epoch, rs2, w2) =
                        fetch_epoch_info env (needs_epoch_info estimate last_epoch_slot n) rs1 w1;
                      (slot_leaders, rs3, w3) =
                        fetch_slot_leaders env (needs_slot_leaders estimate last_cached) estimate
                          (cache_fanout n) rs2 w2
                  in (Return \<lparr>maybe_cluster_nodes = cluster, maybe_epoch_info = epoch,
                              maybe_slot_leaders = slot_leaders\<rparr>,
                      svc\<lparr>recent_slots := rs3\<rparr>, w3))))"

record refresher_state =
  last_cluster_refresh :: nat
  sleep_ms :: u64

definition new_refresher :: "sdk \<Rightarrow> 'w rpc_env \<Rightarrow> 'w \<Rightarrow> refresher_state" where
  "new_refresher k env w =
     \<lparr>last_cluster_refresh = rpc_now_ms env w, sleep_ms = default_ms_per_slot k\<rparr>"

text \<open>
  The write-locked part of the loop body: the estimate is read again while the guard is held,
  so a panic there poisons the lock.
\<close>

definition apply_update ::
  "sdk \<Rightarrow> profile \<Rightarrow> 'w rpc_env \<Rightarrow> client_error cache_update_info \<Rightarrow> leader_tpu_service
    \<Rightarrow> refresher_state \<Rightarrow> 'w \<Rightarrow> unit outcome \<times> leader_tpu_service \<times> refresher_state" where
  "apply_update k p env info svc st w =
     (if \<not> has_some info then (Return (), svc, st)
      else if cache_poisoned svc then (Panic UnwrapFailed, svc, st)
      else (case estimated_current_slot p (recent_slots svc) of
        Panic e \<Rightarrow> (Panic e, svc\<lparr>cache_poisoned := True\<rparr>, st)
      | Return estimate \<Rightarrow>
          (let (cache, has_error, cluster_refreshed) = update_all k (tpu_cache svc) estimate info;
               st1 = (if has_error then st\<lparr>sleep_ms := 100\<rparr> else st);
               st2 = (if cluster_refreshed then st1\<lparr>last_cluster_refresh := rpc_now_ms env w\<rparr> else st1)
           in (Return (), svc\<lparr>tpu_cache := cache\<rparr>, st2))))"

definition refresh_iteration ::
  "sdk \<Rightarrow> profile \<Rightarrow> 'w rpc_env \<Rightarrow> leader_tpu_service \<Rightarrow> refresher_state \<Rightarrow> 'w
    \<Rightarrow> unit outcome \<times> leader_tpu_service \<times> refresher_state \<times> 'w" where
  "refresh_iteration k p env svc st w =
     (let w1 = rpc_sleep env (unat (sleep_ms st)) w;
          (rs1, w2) = after_await env (recent_slots svc) w1;
          svc1 = svc\<lparr>recent_slots := rs1\<rparr>;
          st1 = st\<lparr>sleep_ms := default_ms_per_slot k\<rparr>
      in case maybe_fetch_cache_info p env svc1 (last_cluster_refresh st1) w2 of
           (Panic e, svc2, w3) \<Rightarrow> (Panic e, svc2, st1, w3)
         | (Return info, svc2, w3) \<Rightarrow>
             (let (r, svc3, st2) = apply_update k p env info svc2 st1 w3 in (r, svc3, st2, w3)))"

text \<open>The refresher loop; \<open>None\<close> when the fuel is spent before the exit flag is read as set.\<close>

fun run_cache_refresher ::
  "nat \<Rightarrow> sdk \<Rightarrow> profile \<Rightarrow> 'w rpc_env \<Rightarrow> leader_tpu_service \<Rightarrow> refresher_state \<Rightarrow> 'w
    \<Rightarrow> (unit outcome \<times> leader_tpu_service \<times> 'w) option" where
  "run_cache_refresher 0 k p env svc st w = None"
| "run_cache_refresher (Suc fuel) k p env svc st w =
     (if rpc_exit env w then Some (Return (), svc, w)
      else case refresh_iteration k p env svc st w of
             (Panic e, svc1, st1, w1) \<Rightarrow> Some (Panic e, svc1, w1)
           | (Return u, svc1, st1, w1) \<Rightarrow> run_cache_refresher fuel k p env svc1 st1 w1)"

text \<open>
  \<open>try_join!\<close> of the two loops: the first error ends the join and drops the other loop;
  otherwise it returns when both have returned.
\<close>

definition try_join_tasks ::
  "('pe tpu_sender_error + unit) option \<Rightarrow> ('pe tpu_sender_error + unit) option
    \<Rightarrow> ('pe tpu_sender_error + unit) option" where
  "try_join_tasks watcher refresher =
     (case watcher of
        Some (Inl e) \<Rightarrow> Some (Inl e)
      | _ \<Rightarrow> (case refresher of
          Some (Inl e) \<Rightarrow> Some (Inl e)
        | Some (Inr u) \<Rightarrow> (case watcher of Some (Inr v) \<Rightarrow> Some (Inr ()) | _ \<Rightarrow> None)
        | None \<Rightarrow> None))"

section \<open>Lemmas on the error classifier and the watcher\<close>

lemma starts_with_iff: "starts_with pat s \<longleftrightarrow> (\<exists>r. s = pat @ r)"
  by (induction pat s rule: starts_with.induct) auto

lemma str_contains_iff: "str_contains s pat \<longleftrightarrow> (\<exists>l r. s = l @ pat @ r)"
proof (induction s)
  case Nil
  then show ?case by auto
next
  case (Cons c s)
  have "(\<exists>l r. c # s = l @ pat @ r) \<longleftrightarrow> (\<exists>r. c # s = pat @ r) \<or> (\<exists>l r. s = l @ pat @ r)"
    by (metis Cons_eq_append_conv append_Cons)
  with Cons show ?case by (simp add: starts_with_iff)
qed

primrec slot_of_update :: "slot_update \<Rightarrow> slot option" where
  "slot_of_update (Completed s) = Some (saturating_add s 1)"
| "slot_of_update (FirstShredReceived s) = Some s"
| "slot_of_update OtherSlotUpdate = None"

lemma drain_updates_eq: "drain_updates rs us = record_all rs (List.map_filter slot_of_update us)"
proof (induction us arbitrary: rs)
  case Nil
  then show ?case by (simp add: drain_updates_def map_filter_simps)
next
  case (Cons u us)
  then show ?case by (cases u) (simp_all add: drain_updates_def map_filter_simps)
qed

lemma drain_updates_append: "drain_updates rs (us @ vs) = drain_updates (drain_updates rs us) vs"
  by (simp add: drain_updates_def)

lemma slot_watcher_loop_eq:
  "slot_watcher_loop turns rs =
    (drain_updates rs (concat (map snd (takeWhile (\<lambda>t. \<not> fst t) turns))), list_ex fst turns)"
  by (induction turns rs rule: slot_watcher_loop.induct)
     (simp_all add: drain_updates_append, simp_all add: drain_updates_def)

section \<open>The invariant of the service\<close>

text \<open>
  \<open>headroom\<close> slots below the top of 64 bits are left free: enough for the skip distance, the
  fanout and the length of a fetched schedule.
\<close>

definition slot_headroom :: "slot \<Rightarrow> bool" where
  "slot_headroom s \<longleftrightarrow> unat s + 256 < 2 ^ 64"

definition service_ok :: "leader_tpu_service \<Rightarrow> bool" where
  "service_ok svc \<longleftrightarrow> window_ok (recent_slots svc)
     \<and> (\<forall>s \<in> set (window (recent_slots svc)). slot_headroom s)
     \<and> slot_headroom (first_slot (tpu_cache svc))
     \<and> length (leaders (tpu_cache svc)) \<le> 200
     \<and> \<not> cache_poisoned svc"

text \<open>
  What is assumed of the RPC node: slot notifications leave the headroom, and a schedule request
  with limit \<open>n\<close> is answered by at most \<open>n\<close> leaders.
\<close>

definition update_headroom :: "slot_update \<Rightarrow> bool" where
  "update_headroom u \<longleftrightarrow> (\<forall>s. slot_of_update u = Some s \<longrightarrow> slot_headroom s)"

definition env_ok :: "'w rpc_env \<Rightarrow> bool" where
  "env_ok env \<longleftrightarrow>
     (\<forall>w. \<forall>u \<in> set (fst (rpc_delivered env w)). update_headroom u)
     \<and> (\<forall>s n w ls. fst (rpc_get_slot_leaders env s n w) = Inr ls \<longrightarrow> length ls \<le> unat n)"

lemma window_headroom_estimate:
  assumes "window_ok rs" and "\<forall>s \<in> set (window rs). slot_headroom s"
  shows "\<exists>e. estimated_current_slot p rs = Return e \<and> slot_headroom e"
proof -
  have "\<forall>s \<in> set (window rs). unat s + 54 < 2 ^ 64"
    using assms(2) by (auto simp: slot_headroom_def)
  then show ?thesis
    using estimated_current_slot_margin[of rs p] assms by (auto simp: window_ok_def)
qed

lemma window_ok_record_all: "window_ok rs \<Longrightarrow> window_ok (record_all rs ss)"
  by (induction ss arbitrary: rs) simp_all

lemma drain_updates_ok:
  assumes "window_ok rs" and "\<forall>s \<in> set (window rs). slot_headroom s"
    and "\<forall>u \<in> set us. update_headroom u"
  shows "window_ok (drain_updates rs us) \<and> (\<forall>s \<in> set (window (drain_updates rs us)). slot_headroom s)"
proof -
  have "set (window (drain_updates rs us)) \<subseteq>
      set (window rs) \<union> set (List.map_filter slot_of_update us)"
    using assms(1) set_take_last[of 12 "window rs @ List.map_filter slot_of_update us"]
    by (simp add: drain_updates_eq window_record_all window_ok_def)
  moreover have "\<forall>s \<in> set (List.map_filter slot_of_update us). slot_headroom s"
    using assms(3) by (auto simp: set_map_filter_iff update_headroom_def)
  ultimately show ?thesis
    using assms by (auto simp: drain_updates_eq window_ok_record_all)
qed

lemma service_ok_drain:
  assumes "service_ok svc" and "\<forall>u \<in> set us. update_headroom u"
  shows "service_ok (svc\<lparr>recent_slots := drain_updates (recent_slots svc) us\<rparr>)"
  using assms drain_updates_ok[of "recent_slots svc" us] by (simp add: service_ok_def)

lemma after_await_ok:
  assumes "env_ok env" and "service_ok (svc\<lparr>recent_slots := rs\<rparr>)"
  shows "service_ok (svc\<lparr>recent_slots := fst (after_await env rs w)\<rparr>)"
proof -
  have "\<forall>u \<in> set (fst (rpc_delivered env w)). update_headroom u"
    using assms(1) by (simp add: env_ok_def)
  then show ?thesis
    using service_ok_drain[OF assms(2)] by (simp add: after_await_def split_beta Let_def)
qed

lemmas fetch_defs = fetch_cluster_nodes_def fetch_epoch_info_def fetch_slot_leaders_def

lemma fetch_ok:
  assumes "env_ok env" and "service_ok (svc\<lparr>recent_slots := rs\<rparr>)"
  shows "service_ok (svc\<lparr>recent_slots := fst (snd (fetch_cluster_nodes env t rs w))\<rparr>)"
    and "service_ok (svc\<lparr>recent_slots := fst (snd (fetch_epoch_info env b rs w))\<rparr>)"
    and "service_ok (svc\<lparr>recent_slots := fst (snd (fetch_slot_leaders env b e n rs w))\<rparr>)"
  using assms by (auto simp: fetch_defs Let_def split_beta intro!: after_await_ok)

lemma fetch_slot_leaders_length:
  assumes "env_ok env" and "fst (fetch_slot_leaders env b e n rs w) = Some (Inr ls)"
  shows "length ls \<le> unat n"
  using assms by (auto simp: env_ok_def fetch_slot_leaders_def Let_def split_beta split: if_splits)

lemma cache_fanout_le: "unat (cache_fanout n) \<le> 200"
  by (auto simp: cache_fanout_def MAX_FANOUT_SLOTS_def min_def word_le_nat_alt)

lemma slot_info_ok:
  assumes "service_ok svc"
  shows "\<exists>l. last_slot p (tpu_cache svc) = Return l
    \<and> slot_info p (tpu_cache svc) =
        Return (l, last_epoch_info_slot (tpu_cache svc), slots_in_epoch (tpu_cache svc))"
proof -
  let ?m = "length (leaders (tpu_cache svc)) - 1"
  have "length (leaders (tpu_cache svc)) \<le> 200" using assms by (simp add: service_ok_def)
  then have m: "?m < 256" and "?m < 2 ^ 64" by simp_all
  then have "unat (of_nat ?m :: u64) = ?m" by (simp add: unat_of_nat)
  moreover have "unat (first_slot (tpu_cache svc)) + 256 < 2 ^ 64"
    using assms by (simp add: service_ok_def slot_headroom_def)
  ultimately have "unat (first_slot (tpu_cache svc)) + unat (of_nat ?m :: u64) < 2 ^ 64"
    using m by linarith
  then have "last_slot p (tpu_cache svc) = Return (first_slot (tpu_cache svc) + of_nat ?m)"
    unfolding last_slot_def by (intro add_w_fits) simp
  then show ?thesis by (simp add: slot_info_def)
qed

text \<open>What a fetch round returns when nothing panics.\<close>

lemma maybe_fetch_Return:
  assumes "maybe_fetch_cache_info p env svc t w = (Return info, svc', w')"
  obtains cluster rs1 w1 estimate last_cached epoch rs2 w2 slot_leaders rs3 where
    "fetch_cluster_nodes env t (recent_slots svc) w = (cluster, rs1, w1)"
    "estimated_current_slot p rs1 = Return estimate"
    "last_slot p (tpu_cache svc) = Return last_cached"
    "fetch_epoch_info env (needs_epoch_info estimate (last_epoch_info_slot (tpu_cache svc))
       (slots_in_epoch (tpu_cache svc))) rs1 w1 = (epoch, rs2, w2)"
    "fetch_slot_leaders env (needs_slot_leaders estimate last_cached) estimate
       (cache_fanout (slots_in_epoch (tpu_cache svc))) rs2 w2 = (slot_leaders, rs3, w')"
    "info = \<lparr>maybe_cluster_nodes = cluster, maybe_epoch_info = epoch, maybe_slot_leaders = slot_leaders\<rparr>"
    "svc' = svc\<lparr>recent_slots := rs3\<rparr>"
proof -
  obtain cluster rs1 w1 where 1: "fetch_cluster_nodes env t (recent_slots svc) w = (cluster, rs1, w1)"
    by (cases "fetch_cluster_nodes env t (recent_slots svc) w") auto
  obtain estimate where 2: "estimated_current_slot p rs1 = Return estimate"
    using assms 1 by (cases "estimated_current_slot p rs1") (auto simp: maybe_fetch_cache_info_def)
  have np: "\<not> cache_poisoned svc"
    using assms 1 2 by (auto simp: maybe_fetch_cache_info_def)
  obtain last_cached where 3: "last_slot p (tpu_cache svc) = Return last_cached"
    using assms 1 2 np
    by (cases "last_slot p (tpu_cache svc)") (auto simp: maybe_fetch_cache_info_def slot_info_def)
  let ?be = "needs_epoch_info estimate (last_epoch_info_slot (tpu_cache svc)) (slots_in_epoch (tpu_cache svc))"
  obtain epoch rs2 w2 where 4: "fetch_epoch_info env ?be rs1 w1 = (epoch, rs2, w2)"
    by (cases "fetch_epoch_info env ?be rs1 w1") auto
  show ?thesis
    using that[OF 1 2 3 4] assms 1 2 3 4 np
    by (auto simp: maybe_fetch_cache_info_def slot_info_def split: prod.splits)
qed

lemma maybe_fetch_ok:
  assumes "env_ok env" and ok: "service_ok svc"
  shows "\<exists>info svc' w'. maybe_fetch_cache_info p env svc t w = (Return info, svc', w')
    \<and> service_ok svc'
    \<and> (\<forall>ls. maybe_slot_leaders info = Some (Inr ls) \<longrightarrow> length ls \<le> 200)"
proof -
  obtain c1 rs1 w1 where f1: "fetch_cluster_nodes env t (recent_slots svc) w = (c1, rs1, w1)"
    by (cases "fetch_cluster_nodes env t (recent_slots svc) w") auto
  have ok1: "service_ok (svc\<lparr>recent_slots := rs1\<rparr>)"
    using fetch_ok(1)[OF assms(1), of "recent_slots svc" svc t w] ok f1 by simp
  obtain e where e: "estimated_current_slot p rs1 = Return e"
    using window_headroom_estimate[of rs1 p] ok1 by (auto simp: service_ok_def)
  obtain l where l: "slot_info p (tpu_cache svc) =
      Return (l, last_epoch_info_slot (tpu_cache svc), slots_in_epoch (tpu_cache svc))"
    using slot_info_ok[OF ok] by blast
  let ?n = "slots_in_epoch (tpu_cache svc)"
  let ?be = "needs_epoch_info e (last_epoch_info_slot (tpu_cache svc)) ?n"
  obtain c2 rs2 w2 where f2: "fetch_epoch_info env ?be rs1 w1 = (c2, rs2, w2)"
    by (cases "fetch_epoch_info env ?be rs1 w1") auto
  have ok2: "service_ok (svc\<lparr>recent_slots := rs2\<rparr>)"
    using fetch_ok(2)[OF assms(1) ok1, of ?be w1] f2 by simp
  let ?bl = "needs_slot_leaders e l"
  obtain c3 rs3 w3 where f3: "fetch_slot_leaders env ?bl e (cache_fanout ?n) rs2 w2 = (c3, rs3, w3)"
    by (cases "fetch_slot_leaders env ?bl e (cache_fanout ?n) rs2 w2") auto
  have ok3: "service_ok (svc\<lparr>recent_slots := rs3\<rparr>)"
    using fetch_ok(3)[OF assms(1) ok2, of ?bl e "cache_fanout ?n" w2] f3 by simp
  have len: "length ls \<le> 200" if "c3 = Some (Inr ls)" for ls
    using fetch_slot_leaders_length[OF assms(1), of ?bl e "cache_fanout ?n" rs2 w2 ls] f3 that
      cache_fanout_le[of ?n] by simp
  have "\<not> cache_poisoned svc" using ok by (simp add: service_ok_def)
  then show ?thesis
    using f1 e l f2 f3 ok3 len by (simp add: maybe_fetch_cache_info_def)
qed

lemma apply_update_ok:
  assumes ok: "service_ok svc"
    and len: "\<forall>ls. maybe_slot_leaders info = Some (Inr ls) \<longrightarrow> length ls \<le> 200"
  shows "\<exists>svc' st'. apply_update k p env info svc st w = (Return (), svc', st') \<and> service_ok svc'"
proof -
  obtain e where e: "estimated_current_slot p (recent_slots svc) = Return e" "slot_headroom e"
    using window_headroom_estimate[of "recent_slots svc" p] ok by (auto simp: service_ok_def)
  have "service_ok (svc\<lparr>tpu_cache := fst (update_all k (tpu_cache svc) e info)\<rparr>)"
    using ok e(2) len by (auto simp: service_ok_def update_all_facts split: option.splits sum.splits)
  then show ?thesis
    using ok e(1) by (auto simp: apply_update_def service_ok_def split_beta Let_def)
qed

lemma refresh_iteration_ok:
  assumes "env_ok env" and "service_ok svc"
  shows "\<exists>svc' st' w'. refresh_iteration k p env svc st w = (Return (), svc', st', w') \<and> service_ok svc'"
proof -
  let ?w1 = "rpc_sleep env (unat (sleep_ms st)) w"
  obtain rs1 w2 where a: "after_await env (recent_slots svc) ?w1 = (rs1, w2)"
    by (cases "after_await env (recent_slots svc) ?w1") auto
  have ok1: "service_ok (svc\<lparr>recent_slots := rs1\<rparr>)"
    using after_await_ok[OF assms(1), of "recent_slots svc" svc ?w1] assms(2) a by simp
  obtain info svc2 w3 where f:
      "maybe_fetch_cache_info p env (svc\<lparr>recent_slots := rs1\<rparr>) (last_cluster_refresh st) w2 = (Return info, svc2, w3)"
      "service_ok svc2" "\<forall>ls. maybe_slot_leaders info = Some (Inr ls) \<longrightarrow> length ls \<le> 200"
    using maybe_fetch_ok[OF assms(1) ok1] by blast
  obtain svc3 st2 where u:
      "apply_update k p env info svc2 (st\<lparr>sleep_ms := default_ms_per_slot k\<rparr>) w3 = (Return (), svc3, st2)"
      "service_ok svc3"
    using apply_update_ok[OF f(2,3), of k p env "st\<lparr>sleep_ms := default_ms_per_slot k\<rparr>" w3] by blast
  have "refresh_iteration k p env svc st w =
      (Return (), svc3, st2, w3)"
    unfolding refresh_iteration_def Let_def a prod.case
    by (simp add: f(1) u(1))
  with u(2) show ?thesis by blast
qed

lemma run_cache_refresher_ok:
  assumes "env_ok env" and "service_ok svc" and "run_cache_refresher fuel k p env svc st w = Some (r, svc', w')"
  shows "r = Return () \<and> service_ok svc'"
  using assms(2,3)
proof (induction fuel arbitrary: svc st w)
  case 0
  then show ?case by simp
next
  case (Suc fuel)
  show ?case
  proof (cases "rpc_exit env w")
    case True
    with Suc.prems show ?thesis by simp
  next
    case False
    obtain svc1 st1 w1 where i: "refresh_iteration k p env svc st w = (Return (), svc1, st1, w1)"
        "service_ok svc1"
      using refresh_iteration_ok[OF assms(1) Suc.prems(1)] by blast
    with False Suc.prems(2) have "run_cache_refresher fuel k p env svc1 st1 w1 = Some (r, svc', w')"
      by simp
    with i(2) show ?thesis by (rule Suc.IH)
  qed
qed

section \<open>Lemmas on construction\<close>

text \<open>The clock does not run backwards, and a sleep lasts at least as long as asked.\<close>

definition clock_ok :: "'w rpc_env \<Rightarrow> bool" where
  "clock_ok env \<longleftrightarrow>
     (\<forall>d w. rpc_now_ms env w + d \<le> rpc_now_ms env (rpc_sleep env d w))
     \<and> (\<forall>s n w. rpc_now_ms env w \<le> rpc_now_ms env (snd (rpc_get_slot_leaders env s n w)))"

lemma fetch_leaders_enough_fuel:
  assumes "clock_ok env" and "deadline < rpc_now_ms env w + 1000 * fuel" and "0 < fuel"
  shows "fetch_leaders fuel env deadline s n w \<noteq> None"
  using assms(2,3)
proof (induction fuel arbitrary: w)
  case 0
  then show ?case by simp
next
  case (Suc fuel)
  obtain r w1 where r: "rpc_get_slot_leaders env s n w = (r, w1)"
    by (cases "rpc_get_slot_leaders env s n w") auto
  let ?w2 = "rpc_sleep env 1000 w1"
  have "rpc_now_ms env w \<le> rpc_now_ms env w1"
    using assms(1) r by (metis clock_ok_def snd_conv)
  moreover have "rpc_now_ms env w1 + 1000 \<le> rpc_now_ms env ?w2"
    using assms(1) by (simp add: clock_ok_def)
  ultimately have "rpc_now_ms env w + 1000 \<le> rpc_now_ms env ?w2" by linarith
  then have "deadline < rpc_now_ms env ?w2 \<or> fetch_leaders fuel env deadline s n ?w2 \<noteq> None"
    using Suc.IH[of ?w2] Suc.prems(1) by (cases "0 < fuel") auto
  then show ?case
    by (auto simp: r Let_def split: sum.splits)
qed

lemma service_constructor_returns:
  assumes "clock_ok env"
  shows "new_leader_service 21 k env pubsub url proto w \<noteq> None"
proof -
  have "fetch_leaders 21 env (rpc_now_ms env v + 20000) s n v \<noteq> None" for s n v
    by (rule fetch_leaders_enough_fuel[OF assms]) simp_all
  then obtain f where f: "\<And>v s n. fetch_leaders 21 env (rpc_now_ms env v + 20000) s n v = Some (f v s n)"
    using that[of "\<lambda>v s n. the (fetch_leaders 21 env (rpc_now_ms env v + 20000) s n v)"] by auto
  show ?thesis
    by (simp add: new_leader_service_def f split: sum.splits prod.splits option.splits)
qed

lemma fetch_leaders_length:
  assumes "env_ok env" and "fetch_leaders fuel env deadline s n w = Some (Some (Inr ls), w')"
  shows "length ls \<le> unat n"
  using assms(2)
proof (induction fuel arbitrary: w)
  case 0
  then show ?case by simp
next
  case (Suc fuel)
  obtain r w1 where r: "rpc_get_slot_leaders env s n w = (r, w1)"
    by (cases "rpc_get_slot_leaders env s n w") auto
  then have "length xs \<le> unat n" if "r = Inr xs" for xs
    using assms(1) that by (metis env_ok_def fst_conv)
  with Suc show ?case
    by (auto simp: r Let_def split: if_splits sum.splits)
qed

section \<open>Lemmas on the schedule across a refresh\<close>

text \<open>An RPC node that answers schedule requests from one true schedule.\<close>

definition honest_schedule :: "(slot \<Rightarrow> pubkey) \<Rightarrow> 'w rpc_env \<Rightarrow> bool" where
  "honest_schedule truth env \<longleftrightarrow>
     (\<forall>s n w. fst (rpc_get_slot_leaders env s n w) = Inr (map (\<lambda>i. truth (s + of_nat i)) [0..<unat n]))"

lemma fetched_leaders_honest:
  assumes "honest_schedule truth env" and "fetch_slot_leaders env b e n rs w = (Some r, rs', w')"
  shows "r = Inr (map (\<lambda>i. truth (e + of_nat i)) [0..<unat n])"
  using assms
  by (auto simp: honest_schedule_def fetch_slot_leaders_def Let_def split_beta split: if_splits)

lemma get_slot_leader_shifted:
  assumes "leaders c = map (\<lambda>i. truth (e + of_nat i)) [0..<m]" and "get_slot_leader c s = Some l"
  shows "l = truth (e + (s - first_slot c))"
proof -
  let ?i = "unat s - unat (first_slot c)"
  have le: "first_slot c \<le> s" and i: "?i < m" and l: "leaders c ! ?i = l"
    using assms by (auto simp: get_slot_leader_Some_iff)
  have "of_nat ?i = s - first_slot c"
    using le by (simp flip: unat_sub_fits)
  then show ?thesis using assms(1) i l by simp
qed

interpretation svc_sockets: socket_source "\<lambda>svc s n. unique_leader_tpu_sockets k p svc n"
    "\<lambda>svc. ran (leader_tpu_map (tpu_cache svc))" for k p
proof unfold_locales
  fix svc n xs
  assume "unique_leader_tpu_sockets k p svc n = Return xs"
  then obtain cur where "get_unique_leader_sockets k p (tpu_cache svc) cur n = Return xs"
    by (auto simp: unique_leader_tpu_sockets_def bind_outcome_Return_iff split: if_splits)
  then show "distinct xs" and "set xs \<subseteq> ran (leader_tpu_map (tpu_cache svc))"
    using usock.sockets_distinct usock.sockets_known by blast+
qed

lemma service_sockets_total:
  assumes "service_ok svc" and "0 < num_consecutive_leader_slots k" and "n \<le> MAX_FANOUT_SLOTS"
  shows "\<exists>xs. unique_leader_tpu_sockets k p svc n = Return xs
    \<and> length xs \<le> (unat n + unat (num_consecutive_leader_slots k) - 1)
        div unat (num_consecutive_leader_slots k)"
proof -
  obtain e where e: "estimated_current_slot p (recent_slots svc) = Return e" "slot_headroom e"
    using window_headroom_estimate[of "recent_slots svc" p] assms(1) by (auto simp: service_ok_def)
  have "unat n \<le> 100" using assms(3) by (simp add: MAX_FANOUT_SLOTS_def word_le_nat_alt)
  then have fits: "unat (max e (first_slot (tpu_cache svc))) + unat n < 2 ^ 64"
    using e(2) assms(1) by (auto simp: service_ok_def slot_headroom_def max_def)
  let ?ss = "fanout_leader_slots k (max e (first_slot (tpu_cache svc))) n"
  let ?ys = "List.map_filter (slot_socket (tpu_cache svc)) ?ss"
  have "length (rev (remdups (rev ?ys))) \<le> length ?ys"
    using length_remdups_leq[of "rev ?ys"] by simp
  also have "\<dots> \<le> length ?ss" by (rule length_map_filter_le)
  also have "length ?ss = (unat n + unat (num_consecutive_leader_slots k) - 1)
      div unat (num_consecutive_leader_slots k)"
    by (simp add: fanout_leader_slots_def Let_def)
  finally show ?thesis
    using e(1) assms(1) get_unique_leader_sockets_fits[OF assms(2) fits]
    by (simp add: unique_leader_tpu_sockets_def service_ok_def)
qed

section \<open>Properties\<close>

text \<open>
  C8: The cache refresher never panics, however long it runs and however slot notifications
  interleave with its RPC calls, as long as slots stay 256 below the top of 64 bits and the RPC
  node respects the requested schedule length; and at the end every read of the sender with a
  fanout of at most 100 succeeds and lists each address once.
\<close>
theorem refresher_never_panics:
  assumes "env_ok env" and "service_ok svc" and "0 < num_consecutive_leader_slots k"
    and "run_cache_refresher fuel k p env svc st w = Some (r, svc', w')"
    and "n \<le> MAX_FANOUT_SLOTS"
  shows "r = Return () \<and> service_ok svc'
    \<and> (\<exists>xs. unique_leader_tpu_sockets k p svc' n = Return xs \<and> distinct xs)"
proof -
  have r: "r = Return ()" and ok: "service_ok svc'"
    using run_cache_refresher_ok[OF assms(1,2,4)] by auto
  obtain xs where xs: "unique_leader_tpu_sockets k p svc' n = Return xs"
    using service_sockets_total[OF ok assms(3,5)] by blast
  then show ?thesis using r ok svc_sockets.sockets_distinct by blast
qed

text \<open>
  A node over a world that counts: it serves the schedule \<open>race_truth\<close> (slots below 104 are led
  by validator 1, the others by validator 2), delivers one slot notification while the schedule
  request is under way, and asks the service to exit after that.
\<close>

definition race_truth :: "slot \<Rightarrow> pubkey" where
  "race_truth s = (if s < 104 then 1 else 2)"

definition race_env :: "nat rpc_env" where
  "race_env = \<lparr>rpc_get_slot = (\<lambda>w. (Inr 100, w)),
     rpc_get_epoch_info = (\<lambda>w. (Inr \<lparr>epoch_slots_in_epoch = 8\<rparr>, w)),
     rpc_get_slot_leaders =
       (\<lambda>s n w. (Inr (map (\<lambda>i. race_truth (s + of_nat i)) [0..<unat n]), w + 1)),
     rpc_get_cluster_nodes = (\<lambda>w. (Inr [], w)),
     rpc_sleep = (\<lambda>d w. w), rpc_now_ms = (\<lambda>w. w), rpc_exit = (\<lambda>w. 2 \<le> w),
     rpc_delivered = (\<lambda>w. if w = 1 then ([FirstShredReceived 104], 2) else ([], w))\<rparr>"

definition race_service :: leader_tpu_service where
  "race_service = \<lparr>recent_slots = new_recent_slots 100,
     tpu_cache = \<lparr>protocol = QUIC, first_slot = 96, leaders = [1, 1, 1, 1, 1, 1, 1, 1],
        leader_tpu_map = Map.empty, slots_in_epoch = 8, last_epoch_info_slot = 96\<rparr>,
     cache_poisoned = False, task_spawned = True\<rparr>"

definition race_refresher :: refresher_state where
  "race_refresher = \<lparr>last_cluster_refresh = 0, sleep_ms = 400\<rparr>"

lemma race_honest: "honest_schedule race_truth race_env"
  by (simp add: honest_schedule_def race_env_def)

lemma race_env_ok: "env_ok race_env"
  by (auto simp: env_ok_def race_env_def update_headroom_def slot_headroom_def)

lemma race_service_ok: "service_ok race_service"
  by (simp add: service_ok_def race_service_def slot_headroom_def)

lemma race_estimates:
  "estimated_current_slot p (new_recent_slots 100) = Return 100"
  "estimated_current_slot p (drain_updates (new_recent_slots 100) [FirstShredReceived 104]) = Return 104"
  by (simp_all add: estimated_current_slot_def drain_updates_def record_slot_def add_w_def
      MAX_SLOT_SKIP_DISTANCE_def Let_def)

lemma drain_none [simp]: "drain_updates rs [] = rs"
  by (simp add: drain_updates_def)

definition race_cache :: leader_tpu_cache where
  "race_cache = \<lparr>protocol = QUIC, first_slot = 104, leaders = [1, 1, 1, 1, 2, 2, 2, 2],
     leader_tpu_map = Map.empty, slots_in_epoch = 8, last_epoch_info_slot = 104\<rparr>"

lemma race_leaders:
  "map (\<lambda>i. race_truth (100 + of_nat i)) [0..<unat (cache_fanout 8)] = [1, 1, 1, 1, 2, 2, 2, 2]"
  by (simp add: cache_fanout_def MAX_FANOUT_SLOTS_def race_truth_def upt_conv_Cons min_def)

lemma race_fetch:
  "maybe_fetch_cache_info p race_env race_service 0 0 =
      (Return \<lparr>maybe_cluster_nodes = None, maybe_epoch_info = Some (Inr \<lparr>epoch_slots_in_epoch = 8\<rparr>),
               maybe_slot_leaders = Some (Inr [1, 1, 1, 1, 2, 2, 2, 2])\<rparr>,
       race_service\<lparr>recent_slots := drain_updates (new_recent_slots 100) [FirstShredReceived 104]\<rparr>, 2)"
proof -
  have l: "last_slot p (tpu_cache race_service) = Return 103"
    by (simp add: last_slot_def add_w_def race_service_def)
  have n: "needs_slot_leaders 100 103" "needs_epoch_info 100 96 8"
    by (simp_all add: needs_slot_leaders_def needs_epoch_info_def saturating_sub_def MAX_FANOUT_SLOTS_def)
  show ?thesis
    using l n race_leaders
    by (simp add: maybe_fetch_cache_info_def fetch_defs after_await_def race_env_def race_service_def
        slot_info_def race_estimates)
qed

lemma race_iteration:
  "refresh_iteration sample_sdk p race_env race_service race_refresher 0 =
     (Return (), race_service\<lparr>recent_slots := drain_updates (new_recent_slots 100) [FirstShredReceived 104],
                              tpu_cache := race_cache\<rparr>, race_refresher, 2)"
proof -
  have "after_await race_env (recent_slots race_service) 0 = (recent_slots race_service, 0)"
    and "rpc_sleep race_env d 0 = 0" for d
    by (simp_all add: after_await_def race_env_def)
  then show ?thesis
    using race_fetch[of p]
    by (simp add: refresh_iteration_def apply_update_def race_estimates race_service_def
        race_refresher_def sample_sdk_def has_some_def update_all_def update_cluster_def
        update_epoch_def update_leaders_def race_cache_def)
qed

theorem refresher_never_panics_witness:
  "\<exists>r svc' w'. run_cache_refresher 2 sample_sdk Checked race_env race_service race_refresher 0
      = Some (r, svc', w') \<and> r = Return () \<and> service_ok svc'
    \<and> (\<exists>xs. unique_leader_tpu_sockets sample_sdk Checked svc' 64 = Return xs \<and> distinct xs)"
proof -
  have "\<exists>r svc' w'. run_cache_refresher (Suc (Suc 0)) sample_sdk Checked race_env race_service
      race_refresher 0 = Some (r, svc', w')"
    by (simp add: race_iteration) (simp add: race_env_def)
  then obtain r svc' w' where run: "run_cache_refresher 2 sample_sdk Checked race_env race_service
      race_refresher 0 = Some (r, svc', w')"
    by (auto simp: numeral_2_eq_2)
  show ?thesis
    using refresher_never_panics[OF race_env_ok race_service_ok _ run, of 64] run
    by (simp add: sample_sdk_def MAX_FANOUT_SLOTS_def)
qed

text \<open>
  C16: How the refreshed schedule relates to the true one. The schedule is requested for the
  estimate \<open>e1\<close> taken before the RPC call and stored under the estimate \<open>e2\<close> taken after it, so
  a cached leader of slot \<open>s\<close> is the true leader of \<open>e1 + (s - e2)\<close>: the cache is right exactly
  as far as the estimate did not move during the calls.
\<close>
theorem refresh_shifts_schedule:
  assumes "honest_schedule truth env"
    and "maybe_fetch_cache_info p env svc t w = (Return info, svc1, w1)"
    and "maybe_slot_leaders info \<noteq> None"
    and "apply_update k p env info svc1 st w1 = (Return (), svc2, st')"
  shows "\<exists>e1 e2.
      estimated_current_slot p (fst (snd (fetch_cluster_nodes env t (recent_slots svc) w))) = Return e1
    \<and> estimated_current_slot p (recent_slots svc1) = Return e2
    \<and> (\<forall>s l. get_slot_leader (tpu_cache svc2) s = Some l \<longrightarrow> l = truth (e1 + (s - e2)))"
proof -
  obtain cluster rs1 wa e1 lc epoch rs2 w2 sl rs3 where f:
      "fetch_cluster_nodes env t (recent_slots svc) w = (cluster, rs1, wa)"
      "estimated_current_slot p rs1 = Return e1"
      "fetch_slot_leaders env (needs_slot_leaders e1 lc) e1
         (cache_fanout (slots_in_epoch (tpu_cache svc))) rs2 w2 = (sl, rs3, w1)"
      "info = \<lparr>maybe_cluster_nodes = cluster, maybe_epoch_info = epoch, maybe_slot_leaders = sl\<rparr>"
    using maybe_fetch_Return[OF assms(2)] by metis
  obtain r where r: "sl = Some r" using assms(3) f(4) by auto
  let ?m = "unat (cache_fanout (slots_in_epoch (tpu_cache svc)))"
  have ls: "maybe_slot_leaders info = Some (Inr (map (\<lambda>i. truth (e1 + of_nat i)) [0..<?m]))"
    using fetched_leaders_honest[OF assms(1) f(3)[unfolded r]] f(4) r by simp
  then have "has_some info" by (simp add: has_some_def)
  then obtain e2 where e2: "estimated_current_slot p (recent_slots svc1) = Return e2"
      and c: "tpu_cache svc2 = fst (update_all k (tpu_cache svc1) e2 info)"
    using assms(4)
    by (auto simp: apply_update_def Let_def split_beta split: outcome.splits if_splits)
  have "leaders (tpu_cache svc2) = map (\<lambda>i. truth (e1 + of_nat i)) [0..<?m]"
    and "first_slot (tpu_cache svc2) = e2"
    using ls by (simp_all add: c update_all_facts)
  then have "\<forall>s l. get_slot_leader (tpu_cache svc2) s = Some l \<longrightarrow> l = truth (e1 + (s - e2))"
    using get_slot_leader_shifted[of "tpu_cache svc2" truth e1 ?m] by blast
  then show ?thesis using f(1,2) e2 by auto
qed

theorem refresh_shifts_schedule_witness:
  "\<exists>e1 e2. e1 = (100 :: slot) \<and> e2 = (104 :: slot)
    \<and> (\<exists>svc2 :: leader_tpu_service. \<forall>s l. get_slot_leader (tpu_cache svc2) s = Some l \<longrightarrow> l = race_truth (e1 + (s - e2)))"
proof -
  let ?info = "\<lparr>maybe_cluster_nodes = None, maybe_epoch_info = Some (Inr \<lparr>epoch_slots_in_epoch = 8\<rparr>),
      maybe_slot_leaders = Some (Inr [1, 1, 1, 1, 2, 2, 2, 2])\<rparr> :: client_error cache_update_info"
  let ?svc1 = "race_service\<lparr>recent_slots := drain_updates (new_recent_slots 100) [FirstShredReceived 104]\<rparr>"
  obtain svc2 st' where u: "apply_update sample_sdk Checked race_env ?info ?svc1 race_refresher 2
      = (Return (), svc2, st')"
    by (simp add: apply_update_def has_some_def race_service_def race_estimates split_beta Let_def)
  have rs: "fst (snd (fetch_cluster_nodes race_env 0 (recent_slots race_service) 0)) = new_recent_slots 100"
    by (simp add: fetch_defs race_env_def race_service_def)
  have m: "maybe_slot_leaders ?info \<noteq> None" by simp
  show ?thesis
    using refresh_shifts_schedule[OF race_honest race_fetch m u] race_estimates[of Checked]
    by (simp add: rs) blast
qed


text \<open>
  C27: When the refresher decides that no new schedule is needed, the cached one covers every slot
  the sender may look at: each slot from the estimate on, for the largest fanout of 100, has a
  known leader, provided the estimate is not behind the cached schedule.
\<close>
theorem no_refetch_means_covered:
  assumes "maybe_fetch_cache_info p env svc t w = (Return info, svc', w')"
    and "maybe_slot_leaders info = None"
    and "estimated_current_slot p (fst (snd (fetch_cluster_nodes env t (recent_slots svc) w))) = Return e"
    and "first_slot (tpu_cache svc) \<le> e"
    and "e \<le> s" and "unat s < unat e + 100"
  shows "get_slot_leader (tpu_cache svc) s \<noteq> None"
proof -
  obtain cluster rs1 wa e1 lc epoch rs2 w2 sl rs3 where f:
      "fetch_cluster_nodes env t (recent_slots svc) w = (cluster, rs1, wa)"
      "estimated_current_slot p rs1 = Return e1"
      "last_slot p (tpu_cache svc) = Return lc"
      "fetch_slot_leaders env (needs_slot_leaders e1 lc) e1
         (cache_fanout (slots_in_epoch (tpu_cache svc))) rs2 w2 = (sl, rs3, w')"
      "info = \<lparr>maybe_cluster_nodes = cluster, maybe_epoch_info = epoch, maybe_slot_leaders = sl\<rparr>"
    using maybe_fetch_Return[OF assms(1)] by metis
  have e: "e1 = e" using f(1,2) assms(3) by simp
  have "\<not> needs_slot_leaders e lc"
    using f(4,5) assms(2) e by (auto simp: fetch_slot_leaders_def Let_def split_beta split: if_splits)
  then have far: "unat e + 100 < unat lc"
    by (auto simp: needs_slot_leaders_def word_le_nat_alt unat_saturating_sub MAX_FANOUT_SLOTS_def)
  show ?thesis
    by (rule sched.covered_window[OF f(3) assms(4) _ assms(5), where fanout = "100 :: u64"])
       (use far assms(6) in \<open>simp_all add: word_less_nat_alt\<close>)
qed

definition calm_service :: leader_tpu_service where
  "calm_service = race_service\<lparr>tpu_cache := \<lparr>protocol = QUIC, first_slot = 96,
     leaders = replicate 200 1, leader_tpu_map = Map.empty, slots_in_epoch = 432000,
     last_epoch_info_slot = 96\<rparr>\<rparr>"

theorem no_refetch_means_covered_witness: "get_slot_leader (tpu_cache calm_service) 150 \<noteq> None"
proof -
  have l: "last_slot p (tpu_cache calm_service) = Return 295" for p
    by (simp add: last_slot_def add_w_def calm_service_def)
  have rs: "fst (snd (fetch_cluster_nodes race_env 0 (recent_slots calm_service) 0)) = new_recent_slots 100"
    by (simp add: fetch_defs race_env_def calm_service_def race_service_def)
  obtain info svc' w' where m: "maybe_fetch_cache_info Checked race_env calm_service 0 0 = (Return info, svc', w')"
      "maybe_slot_leaders info = None"
    using l[of Checked]
    by (auto simp: maybe_fetch_cache_info_def fetch_defs race_env_def calm_service_def race_service_def
        slot_info_def race_estimates after_await_def needs_slot_leaders_def needs_epoch_info_def
        saturating_sub_def MAX_FANOUT_SLOTS_def)
  show ?thesis
    by (rule no_refetch_means_covered[OF m, of 100])
       (simp_all add: rs race_estimates, simp_all add: calm_service_def race_service_def)
qed

text \<open>
  C28: The epoch-info guard subtracts the epoch length from the slot of the last epoch info, so in
  every round whose estimate is not below that slot the call is made, however recent the last
  answer is: the cached value never saves a call while slots advance.
\<close>
theorem epoch_info_always_fetched:
  assumes "maybe_fetch_cache_info p env svc t w = (Return info, svc', w')"
    and "estimated_current_slot p (fst (snd (fetch_cluster_nodes env t (recent_slots svc) w))) = Return e"
    and "last_epoch_info_slot (tpu_cache svc) \<le> e"
  shows "maybe_epoch_info info \<noteq> None"
proof -
  obtain cluster rs1 wa e1 epoch rs2 w2 sl where f:
      "fetch_cluster_nodes env t (recent_slots svc) w = (cluster, rs1, wa)"
      "estimated_current_slot p rs1 = Return e1"
      "fetch_epoch_info env (needs_epoch_info e1 (last_epoch_info_slot (tpu_cache svc))
         (slots_in_epoch (tpu_cache svc))) rs1 wa = (epoch, rs2, w2)"
      "info = \<lparr>maybe_cluster_nodes = cluster, maybe_epoch_info = epoch, maybe_slot_leaders = sl\<rparr>"
    using maybe_fetch_Return[OF assms(1)] by metis
  have "e1 = e" using f(1,2) assms(2) by simp
  then have "needs_epoch_info e1 (last_epoch_info_slot (tpu_cache svc)) (slots_in_epoch (tpu_cache svc))"
    using assms(3) by (simp add: needs_epoch_info_def word_le_nat_alt unat_saturating_sub)
  then show ?thesis
    using f(3,4) by (auto simp: fetch_epoch_info_def Let_def split_beta)
qed

theorem epoch_info_always_fetched_witness:
  "maybe_epoch_info \<lparr>maybe_cluster_nodes = None,
      maybe_epoch_info = Some (Inr \<lparr>epoch_slots_in_epoch = 8\<rparr>),
      maybe_slot_leaders = Some (Inr [1, 1, 1, 1, 2, 2, 2, 2]) :: (client_error + pubkey list) option\<rparr> \<noteq> None"
  by (rule epoch_info_always_fetched[OF race_fetch[of Checked], of 100])
     (simp_all add: fetch_defs race_env_def race_service_def race_estimates)

text \<open>
  C36: A panic while the refresher holds the cache's write lock poisons the lock for good: from
  then on every read of the sender panics, whatever slots the window holds.
\<close>
theorem poisoned_cache_stays_unreadable:
  assumes "apply_update k p env info svc st w = (Panic e, svc', st')"
  shows "cache_poisoned svc'
    \<and> (\<exists>e'. unique_leader_tpu_sockets k q (svc'\<lparr>recent_slots := rs\<rparr>) n = Panic e')
    \<and> (\<exists>e'. leader_tpu_sockets k q (svc'\<lparr>recent_slots := rs\<rparr>) n = Panic e')"
proof -
  have "cache_poisoned svc'"
    using assms by (auto simp: apply_update_def Let_def split_beta split: if_splits outcome.splits)
  then show ?thesis
    by (cases "estimated_current_slot q rs")
       (simp_all add: unique_leader_tpu_sockets_def leader_tpu_sockets_def)
qed

definition top_service :: leader_tpu_service where
  "top_service = race_service\<lparr>recent_slots := new_recent_slots (- 1)\<rparr>"

lemma top_estimate:
  "estimated_current_slot Checked (recent_slots top_service) = Panic ArithmeticOverflow"
proof -
  have "reasonable_bound [- 1] = 2 ^ 64 - 1 + 48"
    by (simp add: reasonable_bound_def median_slot_def unat_minus_one_val)
  then show ?thesis
    by (intro estimated_current_slot_overflow) (simp_all add: top_service_def)
qed

theorem poisoned_cache_stays_unreadable_witness:
  "\<exists>svc' st'. apply_update sample_sdk Checked race_env
      \<lparr>maybe_cluster_nodes = Some (Inr []), maybe_epoch_info = None, maybe_slot_leaders = None\<rparr>
      top_service race_refresher 0 = (Panic ArithmeticOverflow, svc', st')
    \<and> cache_poisoned svc'"
proof -
  let ?i = "\<lparr>maybe_cluster_nodes = Some (Inr []), maybe_epoch_info = None, maybe_slot_leaders = None\<rparr>
      :: client_error cache_update_info"
  have "\<not> cache_poisoned top_service" by (simp add: top_service_def race_service_def)
  then obtain svc' st' where u: "apply_update sample_sdk Checked race_env ?i top_service race_refresher 0 =
      (Panic ArithmeticOverflow, svc', st')"
    using top_estimate by (simp add: apply_update_def has_some_def)
  then show ?thesis using poisoned_cache_stays_unreadable[OF u] by auto
qed

text \<open>
  C25: Building the service takes boundedly many schedule requests: with a clock that does not run
  backwards, the 20 second timeout and the one second pauses, 21 turns of the retry loop always
  suffice for the constructor to return.
\<close>
theorem new_service_returns:
  assumes "clock_ok env"
  shows "\<exists>r w'. new_leader_service 21 k env pubsub url proto w = Some (r, w')"
  using service_constructor_returns[OF assms, of k pubsub url proto w]
  by (cases "new_leader_service 21 k env pubsub url proto w") auto

theorem new_service_returns_witness:
  "\<exists>r w'. new_leader_service 21 sample_sdk (race_env\<lparr>rpc_sleep := (\<lambda>d w. w + d)\<rparr>)
     (\<lambda>_. None :: nat option) [] QUIC 0 = Some (r, w')"
  by (rule new_service_returns) (simp add: clock_ok_def race_env_def)


lemma race_new_service:
  "\<exists>svc w'. new_leader_service 21 sample_sdk race_env (\<lambda>_. None :: nat option) [] QUIC 0
      = Some (Return (Inr svc), w')"
proof -
  have "fetch_leaders 21 race_env 20000 100 8 0 =
      Some (Some (Inr (map (\<lambda>i. race_truth (100 + of_nat i)) [0..<unat (8 :: u64)])), 1)"
    by (simp add: numeral_eq_Suc race_env_def)
  moreover have "cache_fanout 8 = 8"
    by (simp add: cache_fanout_def MAX_FANOUT_SLOTS_def min_def)
  ultimately show ?thesis
    by (simp add: new_leader_service_def) (simp add: race_env_def)
qed


text \<open>
  A schedule request that fails with any error but the invalid-slot-range one panics the
  constructor instead of being returned as its error, unlike the other three RPC calls.
\<close>
lemma leaders_error_panics_constructor:
  assumes "rpc_get_slot env w = (Inr s0, w1)" and "rpc_get_epoch_info env w1 = (Inr info, w2)"
    and "rpc_get_slot_leaders env s0 (cache_fanout (epoch_slots_in_epoch info)) w2 = (Inl e, w3)"
    and "\<not> is_invalid_slot_range_error e"
  shows "new_leader_service (Suc fuel) k env pubsub url proto w = Some (Panic UnwrapFailed, w3)"
  using assms by (simp add: new_leader_service_def)

definition refusing_env :: "nat rpc_env" where
  "refusing_env = race_env\<lparr>rpc_get_slot_leaders :=
     (\<lambda>s n w. (Inl \<lparr>client_error_kind = RpcErrorKind (RpcResponseError (- 32005) ''node is behind'')\<rparr>, w))\<rparr>"

lemma leaders_error_panics_constructor_witness:
  "new_leader_service (Suc 0) sample_sdk refusing_env (\<lambda>_. None :: nat option) [] QUIC 0
    = Some (Panic UnwrapFailed, 0)"
  by (rule leaders_error_panics_constructor[where ?s0.0 = 100 and info = "\<lparr>epoch_slots_in_epoch = 8\<rparr>"
        and ?w1.0 = 0 and ?w2.0 = 0 and e = "\<lparr>client_error_kind =
          RpcErrorKind (RpcResponseError (- 32005) ''node is behind'')\<rparr>"])
     (simp_all add: refusing_env_def race_env_def is_invalid_slot_range_error_def)

text \<open>
  C29: The watcher stops at the first turn that reads the exit flag as set, and by then the window
  holds the last twelve slots of the start slot and the updates of all earlier turns in order,
  a completed slot counting as its successor.
\<close>
theorem watcher_window_and_exit:
  "window (fst (slot_watcher_loop turns (new_recent_slots s0))) =
     take_last 12 (s0 # List.map_filter slot_of_update
       (concat (map snd (takeWhile (\<lambda>t. \<not> fst t) turns))))
   \<and> (snd (slot_watcher_loop turns (new_recent_slots s0)) \<longleftrightarrow> (\<exists>t. t \<in> set turns \<and> fst t))"
  using rls.contents_history
  by (simp add: slot_watcher_loop_eq drain_updates_eq record_all_def list_ex_iff Bex_def)

text \<open>
  The retry of the constructor is guarded by exactly this test: an RPC response error with
  code -32602 whose message contains the invalid-slot-range text.
\<close>
lemma invalid_slot_range_classified:
  "is_invalid_slot_range_error e \<longleftrightarrow>
    (\<exists>l r. client_error_kind e = RpcErrorKind (RpcResponseError (- 32602)
        (l @ ''Invalid slot range: leader schedule for epoch'' @ r)))"
  by (auto simp: is_invalid_slot_range_error_def str_contains_iff
      split: error_kind.splits rpc_error.splits)

text \<open>
  \<open>join\<close> consumes the task: a first call panics exactly when the task panicked or returned an
  error, and a second call is a no-op that never panics.
\<close>
lemma join_consumes_task:
  "snd (join_service t svc) = svc\<lparr>task_spawned := False\<rparr>
   \<and> join_service t' (snd (join_service t svc)) = (Return (), snd (join_service t svc))
   \<and> (fst (join_service t svc) = Return () \<longleftrightarrow> \<not> task_spawned svc \<or> t = TaskReturned (Inr ()))"
proof -
  have "svc = svc\<lparr>task_spawned := False\<rparr>" if "\<not> task_spawned svc"
    using that by (cases svc) simp
  moreover have "(case t of TaskReturned (Inr u) \<Rightarrow> Return () | _ \<Rightarrow> Panic UnwrapFailed) = Return ()
      \<longleftrightarrow> t = TaskReturned (Inr ())"
    by (simp split: task_end.split sum.split)
  ultimately show ?thesis
    by (cases "task_spawned svc") (simp_all add: join_service_def)
qed

end
