(* ===== verification/Transport.thy ===== *)
theory Transport
  imports Prelude "HOL-Library.Multiset"
begin

text \<open>
  What the sending layers share: the error values of a send, and \<open>join_all\<close>, which awaits a
  list of futures that the runtime completes in an order of its own and returns their results in
  the order of the list.
\<close>

section \<open>Errors\<close>

datatype transport_error =
    TransportIo string
  | TransportTransaction string
  | TransportCustom string

type_synonym send_result = "transport_error + unit"

section \<open>Awaiting many futures\<close>

text \<open>
  A future is a function on the world that returns its value or panics. The first argument is
  the order in which the runtime completes the futures; an index already completed or out of
  range is skipped. A panic of a future propagates at once.
\<close>

fun join_run ::
  "nat list \<Rightarrow> ('w \<Rightarrow> 'r outcome \<times> 'w) list \<Rightarrow> 'r option list \<Rightarrow> 'w
    \<Rightarrow> 'r option list outcome \<times> 'w" where
  "join_run [] futures results w = (Return results, w)"
| "join_run (i # order) futures results w =
     (if i < length futures \<and> results ! i = None then
        (case (futures ! i) w of
           (Panic e, w1) \<Rightarrow> (Panic e, w1)
         | (Return r, w1) \<Rightarrow> join_run order futures (results[i := Some r]) w1)
      else join_run order futures results w)"

text \<open>Whatever the order leaves pending completes in list order, so every future completes.\<close>

definition join_all ::
  "nat list \<Rightarrow> ('w \<Rightarrow> 'r outcome \<times> 'w) list \<Rightarrow> 'w \<Rightarrow> 'r list outcome \<times> 'w" where
  "join_all order futures w =
     (case join_run (order @ [0..<length futures]) futures (replicate (length futures) None) w of
        (Panic e, w1) \<Rightarrow> (Panic e, w1)
      | (Return results, w1) \<Rightarrow> (Return (List.map_filter (\<lambda>r. r) results), w1))"

section \<open>Lemmas\<close>

lemma join_run_length:
  "join_run order futures results w = (Return rs, w') \<Longrightarrow> length rs = length results"
  by (induction order futures results w rule: join_run.induct)
     (auto split: if_splits prod.splits outcome.splits)

lemma join_run_completed:
  assumes "join_run order futures results w = (Return rs, w')" and "length results = length futures"
    and "i < length futures"
  shows "(i \<in> set order \<or> results ! i \<noteq> None \<longrightarrow> rs ! i \<noteq> None)
    \<and> (results ! i \<noteq> None \<longrightarrow> rs ! i = results ! i)"
  using assms
proof (induction order futures results w rule: join_run.induct)
  case (1 futures results w)
  then show ?case by simp
next
  case (2 j order futures results w)
  show ?case
  proof (cases "j < length futures \<and> results ! j = None")
    case True
    then obtain r w1 where f: "(futures ! j) w = (Return r, w1)"
      using 2(3) by (cases "(futures ! j) w"; cases "fst ((futures ! j) w)") auto
    have "join_run order futures (results[j := Some r]) w1 = (Return rs, w')"
      using 2(3) True f by simp
    from 2(1)[OF True f[symmetric] refl this] 2(4,5) True show ?thesis
      by (cases "i = j") auto
  next
    case False
    then have "join_run order futures results w = (Return rs, w')"
      using 2(3) by auto
    from 2(2)[OF False this 2(4,5)] False 2(5) show ?thesis by auto
  qed
qed

lemma map_filter_all_Some:
  "(\<And>i. i < length rs \<Longrightarrow> rs ! i \<noteq> None) \<Longrightarrow> rs = map Some (List.map_filter (\<lambda>r. r) rs)"
proof (induction rs)
  case Nil
  then show ?case by (simp add: map_filter_simps)
next
  case (Cons r rs)
  have "r \<noteq> None" using Cons.prems[of 0] by simp
  moreover have "rs = map Some (List.map_filter (\<lambda>r. r) rs)"
    by (rule Cons.IH) (use Cons.prems[of "Suc _"] in simp)
  ultimately show ?case by (auto simp: map_filter_simps)
qed

lemma join_all_run:
  assumes "join_all order futures w = (Return results, w')"
  shows "join_run (order @ [0..<length futures]) futures (replicate (length futures) None) w
      = (Return (map Some results), w')
    \<and> length results = length futures"
proof -
  obtain rs where run: "join_run (order @ [0..<length futures]) futures
      (replicate (length futures) None) w = (Return rs, w')"
    and results: "results = List.map_filter (\<lambda>r. r) rs"
    using assms by (auto simp: join_all_def split: prod.splits outcome.splits)
  have len: "length rs = length futures" using join_run_length[OF run] by simp
  then have "rs = map Some results"
    unfolding results
    by (intro map_filter_all_Some) (use join_run_completed[OF run] in simp)
  with run len show ?thesis by simp
qed

lemma join_all_length: "join_all order futures w = (Return results, w') \<Longrightarrow> length results = length futures"
  by (drule join_all_run) simp

text \<open>
  Where the world carries a log that every future extends by entries of its own, which may depend
  on its result, joining the futures logs each future's entries exactly once, whatever the order.
\<close>

lemma join_run_log:
  assumes "\<And>i w r w1. i < length futures \<Longrightarrow> (futures ! i) w = (Return r, w1) \<Longrightarrow>
      log w1 = log w + entry i r"
    and "join_run order futures results w = (Return rs, w')"
    and "length results = length futures"
  shows "log w' = log w + (\<Sum>i \<in> {i. i < length futures \<and> results ! i = None \<and> i \<in> set order}.
      entry i (the (rs ! i)))"
  using assms(2,3)
proof (induction order arbitrary: results w)
  case Nil
  then show ?case by simp
next
  case (Cons j order)
  let ?A = "\<lambda>res js. {i. i < length futures \<and> res ! i = None \<and> i \<in> set js}"
  let ?e = "\<lambda>i. entry i (the (rs ! i))"
  show ?case
  proof (cases "j < length futures \<and> results ! j = None")
    case True
    then obtain r w1 where f: "(futures ! j) w = (Return r, w1)"
      using Cons.prems(1) by (cases "(futures ! j) w"; cases "fst ((futures ! j) w)") auto
    have run: "join_run order futures (results[j := Some r]) w1 = (Return rs, w')"
      using Cons.prems(1) True f by simp
    then have "log w' = log w1 + (\<Sum>i \<in> ?A (results[j := Some r]) order. ?e i)"
      using Cons.IH[of "results[j := Some r]" w1] Cons.prems(2) by simp
    moreover have "log w1 = log w + ?e j"
      using assms(1) True f join_run_completed[OF run, of j] Cons.prems(2) by simp
    moreover have "?A results (j # order) = insert j (?A (results[j := Some r]) order)"
      and "j \<notin> ?A (results[j := Some r]) order" and "finite (?A (results[j := Some r]) order)"
      using True Cons.prems(2) by (auto simp: nth_list_update)
    ultimately show ?thesis by (simp add: add.assoc)
  next
    case False
    then have "?A results (j # order) = ?A results order" by auto
    moreover have "join_run order futures results w = (Return rs, w')"
      using Cons.prems(1) False by auto
    ultimately show ?thesis using Cons.IH[of results w] Cons.prems(2) by simp
  qed
qed

lemma join_all_log:
  fixes futures :: "('w \<Rightarrow> 'r outcome \<times> 'w) list"
  assumes "\<And>i w r w1. i < length futures \<Longrightarrow> (futures ! i) w = (Return r, w1) \<Longrightarrow>
      log w1 = log w + entry i r"
    and "join_all order futures w = (Return results, w')"
  shows "log w' = log w + (\<Sum>i<length futures. entry i (results ! i))"
proof -
  have run: "join_run (order @ [0..<length futures]) futures
      (replicate (length futures) None) w = (Return (map Some results), w')"
    and len: "length results = length futures"
    using join_all_run[OF assms(2)] by auto
  have "log w' = log w + (\<Sum>i \<in> {i. i < length futures
      \<and> replicate (length futures) (None :: 'r option) ! i = None
      \<and> i \<in> set (order @ [0..<length futures])}. entry i (the (map Some results ! i)))"
    by (rule join_run_log[OF _ run]) (use assms(1) in \<open>simp_all\<close>)
  also have "{i. i < length futures \<and> replicate (length futures) (None :: 'r option) ! i = None
      \<and> i \<in> set (order @ [0..<length futures])} = {..<length futures}"
    by auto
  finally show ?thesis using len by simp
qed

text \<open>
  A property of worlds that every future keeps, and that a future with a result in \<open>Q\<close>
  establishes, holds at the end when some result is in \<open>Q\<close>.
\<close>

lemma join_run_establishes:
  assumes "\<And>i w r w1. i < length futures \<Longrightarrow> (futures ! i) w = (Return r, w1) \<Longrightarrow>
      (P w \<longrightarrow> P w1) \<and> (Q r \<longrightarrow> P w1)"
    and "join_run order futures results w = (Return rs, w')" and "length results = length futures"
  shows "(P w \<longrightarrow> P w') \<and> (\<forall>i < length futures. results ! i = None \<longrightarrow> (\<exists>r. rs ! i = Some r \<and> Q r) \<longrightarrow> P w')"
  using assms(2,3)
proof (induction order arbitrary: results w)
  case Nil
  then show ?case by auto
next
  case (Cons j order)
  show ?case
  proof (cases "j < length futures \<and> results ! j = None")
    case False
    then have "join_run order futures results w = (Return rs, w')" using Cons.prems(1) by auto
    then show ?thesis using Cons.IH Cons.prems(2) by blast
  next
    case True
    then obtain r w1 where f: "(futures ! j) w = (Return r, w1)"
      using Cons.prems(1) by (cases "(futures ! j) w"; cases "fst ((futures ! j) w)") auto
    have run: "join_run order futures (results[j := Some r]) w1 = (Return rs, w')"
      using Cons.prems(1) True f by simp
    have j: "rs ! j = Some r" using join_run_completed[OF run, of j] True Cons.prems(2) by simp
    have p: "(P w \<longrightarrow> P w1) \<and> (Q r \<longrightarrow> P w1)" using assms(1) True f by blast
    have ih: "(P w1 \<longrightarrow> P w') \<and> (\<forall>i < length futures. results[j := Some r] ! i = None \<longrightarrow>
        (\<exists>r. rs ! i = Some r \<and> Q r) \<longrightarrow> P w')"
      using Cons.IH[OF run] Cons.prems(2) by simp
    then show ?thesis using p j Cons.prems(2) by (metis nth_list_update_neq option.inject)
  qed
qed

lemma join_all_establishes:
  fixes futures :: "('w \<Rightarrow> 'r outcome \<times> 'w) list"
  assumes "\<And>i w r w1. i < length futures \<Longrightarrow> (futures ! i) w = (Return r, w1) \<Longrightarrow>
      (P w \<longrightarrow> P w1) \<and> (Q r \<longrightarrow> P w1)"
    and "join_all order futures w = (Return results, w')"
  shows "(P w \<longrightarrow> P w') \<and> ((\<exists>r. r \<in> set results \<and> Q r) \<longrightarrow> P w')"
proof -
  have run: "join_run (order @ [0..<length futures]) futures (replicate (length futures) None) w
      = (Return (map Some results), w')" and len: "length results = length futures"
    using join_all_run[OF assms(2)] by auto
  have e: "(P w \<longrightarrow> P w') \<and> (\<forall>i < length futures. replicate (length futures) (None :: 'r option) ! i = None \<longrightarrow>
      (\<exists>r. map Some results ! i = Some r \<and> Q r) \<longrightarrow> P w')"
    by (rule join_run_establishes[OF _ run]) (use assms(1) in auto)
  then show ?thesis using len by (auto simp: in_set_conv_nth)
qed

end
