(* ===== verification/Tpu_Client.thy ===== *)
theory Tpu_Client
  imports Leader_Service Transport
begin

text \<open>
  The sending clients: \<open>BackendTpuClient\<close> of \<open>src/src/engine/backend_tpu_client.rs\<close> and the
  wrapper \<open>TpuClient\<close> of \<open>src/src/engine/tpu_client.rs\<close>. The connection cache is a type of an
  external crate; what the code calls of it, and the send on a connection it returns, are the
  fields of a parameter \<open>conn_ops\<close> over an abstract world. The fan-out awaits its sends with
  \<open>join_all\<close>, for every completion order.
\<close>

section \<open>Sending to one address\<close>

record 'w conn_ops =
  get_nonblocking_connection :: "socket_addr \<Rightarrow> 'w \<Rightarrow> nat \<times> 'w"
  conn_send_data :: "nat \<Rightarrow> bytes \<Rightarrow> 'w \<Rightarrow> send_result outcome \<times> 'w"
  conn_send_data_batch :: "nat \<Rightarrow> bytes list \<Rightarrow> 'w \<Rightarrow> send_result outcome \<times> 'w"

definition send_wire_transaction_to_addr ::
  "'w conn_ops \<Rightarrow> socket_addr \<Rightarrow> bytes \<Rightarrow> 'w \<Rightarrow> send_result outcome \<times> 'w" where
  "send_wire_transaction_to_addr cc addr wire_transaction w =
     (let (conn, w1) = get_nonblocking_connection cc addr w
      in conn_send_data cc conn wire_transaction w1)"

definition send_wire_transaction_batch_to_addr ::
  "'w conn_ops \<Rightarrow> socket_addr \<Rightarrow> bytes list \<Rightarrow> 'w \<Rightarrow> send_result outcome \<times> 'w" where
  "send_wire_transaction_batch_to_addr cc addr wire_transactions w =
     (let (conn, w1) = get_nonblocking_connection cc addr w
      in conn_send_data_batch cc conn wire_transactions w1)"

section \<open>The backend client\<close>

record backend_tpu_client =
  fanout_slots :: u64
  leader_tpu_service :: leader_tpu_service
  exit_flag :: bool

text \<open>\<open>clamp(1, MAX_FANOUT_SLOTS)\<close>\<close>

definition clamp :: "'a::linorder \<Rightarrow> 'a \<Rightarrow> 'a \<Rightarrow> 'a" where
  "clamp lo hi x = (if x < lo then lo else if hi < x then hi else x)"

definition new_backend_client ::
  "nat \<Rightarrow> sdk \<Rightarrow> 'w rpc_env \<Rightarrow> (string \<Rightarrow> 'pe option) \<Rightarrow> string \<Rightarrow> tpu_client_config \<Rightarrow> 'w
    \<Rightarrow> (('pe tpu_sender_error + backend_tpu_client) outcome \<times> 'w) option" where
  "new_backend_client fuel k env pubsub_result websocket_url config w =
     (case new_leader_service fuel k env pubsub_result websocket_url QUIC w of
        None \<Rightarrow> None
      | Some (Panic e, w1) \<Rightarrow> Some (Panic e, w1)
      | Some (Return (Inl e), w1) \<Rightarrow> Some (Return (Inl e), w1)
      | Some (Return (Inr svc), w1) \<Rightarrow>
          Some (Return (Inr \<lparr>fanout_slots = clamp 1 MAX_FANOUT_SLOTS (config_fanout_slots config),
                  leader_tpu_service = svc, exit_flag = False\<rparr>), w1))"

text \<open>
  The loop over the results: the variable \<open>last_error\<close> is only assigned while it is empty.
\<close>

fun scan_results ::
  "send_result list \<Rightarrow> transport_error option \<Rightarrow> bool \<Rightarrow> transport_error option \<times> bool" where
  "scan_results [] last_error some_success = (last_error, some_success)"
| "scan_results (Inl e # results) last_error some_success =
     (if last_error = None then scan_results results (Some e) some_success
      else scan_results results last_error some_success)"
| "scan_results (Inr u # results) last_error some_success = scan_results results last_error True"

definition no_sends_attempted :: transport_error where
  "no_sends_attempted = TransportIo ''No sends attempted''"

definition collect_results :: "send_result list \<Rightarrow> send_result" where
  "collect_results results =
     (let (last_error, some_success) = scan_results results None False
      in if \<not> some_success
         then Inl (case last_error of Some err \<Rightarrow> err | None \<Rightarrow> no_sends_attempted)
         else Inr ())"

definition try_send_wire_transaction ::
  "sdk \<Rightarrow> profile \<Rightarrow> 'w conn_ops \<Rightarrow> nat list \<Rightarrow> backend_tpu_client \<Rightarrow> bytes \<Rightarrow> 'w
    \<Rightarrow> send_result outcome \<times> 'w" where
  "try_send_wire_transaction k p cc order cl wire_transaction w =
     (case unique_leader_tpu_sockets k p (leader_tpu_service cl) (fanout_slots cl) of
        Panic e \<Rightarrow> (Panic e, w)
      | Return addrs \<Rightarrow>
          (case join_all order
                  (map (\<lambda>addr. send_wire_transaction_to_addr cc addr wire_transaction) addrs) w of
             (Panic e, w1) \<Rightarrow> (Panic e, w1)
           | (Return results, w1) \<Rightarrow> (Return (collect_results results), w1)))"

definition try_send_wire_transaction_batch ::
  "sdk \<Rightarrow> profile \<Rightarrow> 'w conn_ops \<Rightarrow> nat list \<Rightarrow> backend_tpu_client \<Rightarrow> bytes list \<Rightarrow> 'w
    \<Rightarrow> send_result outcome \<times> 'w" where
  "try_send_wire_transaction_batch k p cc order cl wire_transactions w =
     (case unique_leader_tpu_sockets k p (leader_tpu_service cl) (fanout_slots cl) of
        Panic e \<Rightarrow> (Panic e, w)
      | Return addrs \<Rightarrow>
          (case join_all order
                  (map (\<lambda>addr. send_wire_transaction_batch_to_addr cc addr wire_transactions) addrs) w of
             (Panic e, w1) \<Rightarrow> (Panic e, w1)
           | (Return results, w1) \<Rightarrow> (Return (collect_results results), w1)))"

text \<open>The sequential variant: the \<open>?\<close> in the loop returns the first error.\<close>

fun send_to_each ::
  "'w conn_ops \<Rightarrow> bytes \<Rightarrow> socket_addr list \<Rightarrow> 'w \<Rightarrow> send_result outcome \<times> 'w" where
  "send_to_each cc wire_transaction [] w = (Return (Inr ()), w)"
| "send_to_each cc wire_transaction (tpu_address # rest) w =
     (case send_wire_transaction_to_addr cc tpu_address wire_transaction w of
        (Panic e, w1) \<Rightarrow> (Panic e, w1)
      | (Return (Inl err), w1) \<Rightarrow> (Return (Inl err), w1)
      | (Return (Inr u), w1) \<Rightarrow> send_to_each cc wire_transaction rest w1)"

definition send_transaction_to_upcoming_leaders ::
  "sdk \<Rightarrow> profile \<Rightarrow> 'w conn_ops \<Rightarrow> backend_tpu_client \<Rightarrow> bytes \<Rightarrow> 'w
    \<Rightarrow> send_result outcome \<times> 'w" where
  "send_transaction_to_upcoming_leaders k p cc cl wire_transaction w =
     (case unique_leader_tpu_sockets k p (leader_tpu_service cl) (fanout_slots cl) of
        Panic e \<Rightarrow> (Panic e, w)
      | Return addrs \<Rightarrow> send_to_each cc wire_transaction addrs w)"

definition is_ok :: "send_result outcome \<Rightarrow> bool outcome" where
  "is_ok r = bind_outcome r (\<lambda>x. Return (case x of Inr u \<Rightarrow> True | Inl e \<Rightarrow> False))"

definition send_wire_transaction ::
  "sdk \<Rightarrow> profile \<Rightarrow> 'w conn_ops \<Rightarrow> nat list \<Rightarrow> backend_tpu_client \<Rightarrow> bytes \<Rightarrow> 'w
    \<Rightarrow> bool outcome \<times> 'w" where
  "send_wire_transaction k p cc order cl wire_transaction w =
     (let (r, w1) = try_send_wire_transaction k p cc order cl wire_transaction w in (is_ok r, w1))"

text \<open>\<open>serialize\<close> is bincode's; its failure is an \<open>expect\<close>.\<close>

definition try_send_transaction ::
  "('tx \<Rightarrow> bytes option) \<Rightarrow> sdk \<Rightarrow> profile \<Rightarrow> 'w conn_ops \<Rightarrow> nat list \<Rightarrow> backend_tpu_client \<Rightarrow> 'tx \<Rightarrow> 'w
    \<Rightarrow> send_result outcome \<times> 'w" where
  "try_send_transaction serialize k p cc order cl transaction w =
     (case serialize transaction of
        None \<Rightarrow> (Panic UnwrapFailed, w)
      | Some wire_transaction \<Rightarrow> try_send_wire_transaction k p cc order cl wire_transaction w)"

definition send_transaction ::
  "('tx \<Rightarrow> bytes option) \<Rightarrow> sdk \<Rightarrow> profile \<Rightarrow> 'w conn_ops \<Rightarrow> nat list \<Rightarrow> backend_tpu_client \<Rightarrow> 'tx \<Rightarrow> 'w
    \<Rightarrow> bool outcome \<times> 'w" where
  "send_transaction serialize k p cc order cl transaction w =
     (case serialize transaction of
        None \<Rightarrow> (Panic UnwrapFailed, w)
      | Some wire_transaction \<Rightarrow> send_wire_transaction k p cc order cl wire_transaction w)"

text \<open>\<open>shutdown\<close> sets the exit flag and joins the service task; dropping the client sets the flag.\<close>

definition shutdown_client ::
  "'pe task_end \<Rightarrow> backend_tpu_client \<Rightarrow> unit outcome \<times> backend_tpu_client" where
  "shutdown_client task_end cl =
     (let (r, svc) = join_service task_end (leader_tpu_service cl)
      in (r, cl\<lparr>exit_flag := True, leader_tpu_service := svc\<rparr>))"

definition drop_client :: "backend_tpu_client \<Rightarrow> backend_tpu_client" where
  "drop_client cl = cl\<lparr>exit_flag := True\<rparr>"

section \<open>The wrapper\<close>

record tpu_client =
  tpu_client :: backend_tpu_client

text \<open>The wrapper unwraps the backend's result, so a construction error is a panic.\<close>

definition new_tpu_client ::
  "nat \<Rightarrow> sdk \<Rightarrow> 'w rpc_env \<Rightarrow> (string \<Rightarrow> 'pe option) \<Rightarrow> string \<Rightarrow> tpu_client_config \<Rightarrow> 'w
    \<Rightarrow> (('pe tpu_sender_error + tpu_client) outcome \<times> 'w) option" where
  "new_tpu_client fuel k env pubsub_result websocket_url config w =
     (case new_backend_client fuel k env pubsub_result websocket_url config w of
        None \<Rightarrow> None
      | Some (Panic e, w1) \<Rightarrow> Some (Panic e, w1)
      | Some (Return (Inl e), w1) \<Rightarrow> Some (Panic UnwrapFailed, w1)
      | Some (Return (Inr cl), w1) \<Rightarrow> Some (Return (Inr \<lparr>tpu_client = cl\<rparr>), w1))"

definition tpu_try_send_wire_transaction ::
  "sdk \<Rightarrow> profile \<Rightarrow> 'w conn_ops \<Rightarrow> nat list \<Rightarrow> tpu_client \<Rightarrow> bytes \<Rightarrow> 'w \<Rightarrow> send_result outcome \<times> 'w" where
  "tpu_try_send_wire_transaction k p cc order t tx w =
     try_send_wire_transaction k p cc order (tpu_client t) tx w"

definition tpu_try_send_wire_transaction_batch ::
  "sdk \<Rightarrow> profile \<Rightarrow> 'w conn_ops \<Rightarrow> nat list \<Rightarrow> tpu_client \<Rightarrow> bytes list \<Rightarrow> 'w \<Rightarrow> send_result outcome \<times> 'w" where
  "tpu_try_send_wire_transaction_batch k p cc order t txs w =
     try_send_wire_transaction_batch k p cc order (tpu_client t) txs w"

definition tpu_send_transaction_to_upcoming_leaders ::
  "sdk \<Rightarrow> profile \<Rightarrow> 'w conn_ops \<Rightarrow> tpu_client \<Rightarrow> bytes \<Rightarrow> 'w \<Rightarrow> send_result outcome \<times> 'w" where
  "tpu_send_transaction_to_upcoming_leaders k p cc t tx w =
     send_transaction_to_upcoming_leaders k p cc (tpu_client t) tx w"

definition tpu_send_wire_transaction ::
  "sdk \<Rightarrow> profile \<Rightarrow> 'w conn_ops \<Rightarrow> nat list \<Rightarrow> tpu_client \<Rightarrow> bytes \<Rightarrow> 'w \<Rightarrow> bool outcome \<times> 'w" where
  "tpu_send_wire_transaction k p cc order t tx w =
     send_wire_transaction k p cc order (tpu_client t) tx w"

definition tpu_try_send_transaction ::
  "('tx \<Rightarrow> bytes option) \<Rightarrow> sdk \<Rightarrow> profile \<Rightarrow> 'w conn_ops \<Rightarrow> nat list \<Rightarrow> tpu_client \<Rightarrow> 'tx \<Rightarrow> 'w
    \<Rightarrow> send_result outcome \<times> 'w" where
  "tpu_try_send_transaction serialize k p cc order t transaction w =
     try_send_transaction serialize k p cc order (tpu_client t) transaction w"

definition tpu_send_transaction ::
  "('tx \<Rightarrow> bytes option) \<Rightarrow> sdk \<Rightarrow> profile \<Rightarrow> 'w conn_ops \<Rightarrow> nat list \<Rightarrow> tpu_client \<Rightarrow> 'tx \<Rightarrow> 'w
    \<Rightarrow> bool outcome \<times> 'w" where
  "tpu_send_transaction serialize k p cc order t transaction w =
     send_transaction serialize k p cc order (tpu_client t) transaction w"

definition tpu_shutdown :: "'pe task_end \<Rightarrow> tpu_client \<Rightarrow> unit outcome \<times> tpu_client" where
  "tpu_shutdown task_end t =
     (let (r, cl) = shutdown_client task_end (tpu_client t) in (r, t\<lparr>tpu_client := cl\<rparr>))"

section \<open>Lemmas on the results\<close>

lemma clamp_bounds: "lo \<le> hi \<Longrightarrow> lo \<le> clamp lo hi x \<and> clamp lo hi x \<le> hi"
  by (auto simp: clamp_def)

lemma clamp_id: "x \<in> {lo..hi} \<Longrightarrow> clamp lo hi x = x"
  by (auto simp: clamp_def)

lemma scan_results_eq:
  "scan_results results last_error ok =
     ((case last_error of
         Some e \<Rightarrow> Some e
       | None \<Rightarrow> (case [e. Inl e \<leftarrow> results] of [] \<Rightarrow> None | e # es \<Rightarrow> Some e)),
      ok \<or> Inr () \<in> set results)"
  by (induction results last_error ok rule: scan_results.induct) (auto split: option.splits)

lemma collect_results_Inr_iff: "collect_results results = Inr () \<longleftrightarrow> Inr () \<in> set results"
  by (simp add: collect_results_def scan_results_eq)

lemma no_success_all_errors:
  fixes results :: "send_result list"
  shows "Inr () \<notin> set results \<Longrightarrow> \<exists>es. results = map Inl es"
proof (induction results)
  case Nil
  then show ?case by simp
next
  case (Cons r results)
  then obtain e es where "r = Inl e" "results = map Inl es"
    by (cases r) auto
  then have "r # results = map Inl (e # es)" by simp
  then show ?case by (rule exI)
qed

lemma collect_results_Inl:
  "collect_results (map Inl es) = Inl (case es of [] \<Rightarrow> no_sends_attempted | e # _ \<Rightarrow> e)"
proof -
  have "[e. Inl e \<leftarrow> map Inl es] = es" by (induction es) auto
  then show ?thesis
    by (auto simp: collect_results_def scan_results_eq split: list.splits)
qed

lemma try_send_Return:
  assumes "try_send_wire_transaction k p cc order cl tx w = (Return r, w')"
  obtains addrs results where
    "unique_leader_tpu_sockets k p (leader_tpu_service cl) (fanout_slots cl) = Return addrs"
    "join_all order (map (\<lambda>addr. send_wire_transaction_to_addr cc addr tx) addrs) w = (Return results, w')"
    "r = collect_results results" "length results = length addrs"
proof -
  obtain addrs where a: "unique_leader_tpu_sockets k p (leader_tpu_service cl) (fanout_slots cl) = Return addrs"
    using assms by (auto simp: try_send_wire_transaction_def split: outcome.splits)
  let ?fs = "map (\<lambda>addr. send_wire_transaction_to_addr cc addr tx) addrs"
  obtain results where j: "join_all order ?fs w = (Return results, w')" and r: "r = collect_results results"
    using assms a
    by (auto simp: try_send_wire_transaction_def split: outcome.splits prod.splits)
  from that[OF a j r] join_all_length[OF j] show ?thesis by simp
qed

lemma try_send_batch_Return:
  assumes "try_send_wire_transaction_batch k p cc order cl txs w = (Return r, w')"
  obtains addrs results where
    "unique_leader_tpu_sockets k p (leader_tpu_service cl) (fanout_slots cl) = Return addrs"
    "join_all order (map (\<lambda>addr. send_wire_transaction_batch_to_addr cc addr txs) addrs) w = (Return results, w')"
    "r = collect_results results" "length results = length addrs"
proof -
  obtain addrs where a: "unique_leader_tpu_sockets k p (leader_tpu_service cl) (fanout_slots cl) = Return addrs"
    using assms by (auto simp: try_send_wire_transaction_batch_def split: outcome.splits)
  let ?fs = "map (\<lambda>addr. send_wire_transaction_batch_to_addr cc addr txs) addrs"
  obtain results where j: "join_all order ?fs w = (Return results, w')" and r: "r = collect_results results"
    using assms a
    by (auto simp: try_send_wire_transaction_batch_def split: outcome.splits prod.splits)
  from that[OF a j r] join_all_length[OF j] show ?thesis by simp
qed

section \<open>Observing the sends\<close>

text \<open>
  Connection operations that record what is asked of them: which address a connection is
  requested for, and which data is sent on a connection with which result.
\<close>

datatype send_event =
    ConnectionFor socket_addr
  | DataSent bytes send_result
  | BatchSent "bytes list" send_result

definition observed :: "'w conn_ops \<Rightarrow> ('w \<times> send_event list) conn_ops" where
  "observed cc =
     \<lparr>get_nonblocking_connection =
        (\<lambda>a (w, l). let (c, w1) = get_nonblocking_connection cc a w in (c, (w1, l @ [ConnectionFor a]))),
      conn_send_data =
        (\<lambda>c d (w, l). case conn_send_data cc c d w of
            (Return r, w1) \<Rightarrow> (Return r, (w1, l @ [DataSent d r]))
          | (Panic e, w1) \<Rightarrow> (Panic e, (w1, l))),
      conn_send_data_batch =
        (\<lambda>c ds (w, l). case conn_send_data_batch cc c ds w of
            (Return r, w1) \<Rightarrow> (Return r, (w1, l @ [BatchSent ds r]))
          | (Panic e, w1) \<Rightarrow> (Panic e, (w1, l)))\<rparr>"

lemma observed_send:
  assumes "send_wire_transaction_to_addr (observed cc) a tx s = (Return r, s1)"
  shows "snd s1 = snd s @ [ConnectionFor a, DataSent tx r]"
  using assms
  by (cases s) (auto simp: send_wire_transaction_to_addr_def observed_def Let_def split_beta
      split: outcome.splits)

lemma observed_batch_send:
  assumes "send_wire_transaction_batch_to_addr (observed cc) a txs s = (Return r, s1)"
  shows "snd s1 = snd s @ [ConnectionFor a, BatchSent txs r]"
  using assms
  by (cases s) (auto simp: send_wire_transaction_batch_to_addr_def observed_def Let_def split_beta
      split: outcome.splits)

lemma sum_zip_mset:
  assumes "length ys = length xs"
  shows "(\<Sum>i<length xs. mset (f (xs ! i) (ys ! i))) = mset (concat (map2 f xs ys))"
  using assms
proof (induction xs arbitrary: ys)
  case Nil
  then show ?case by simp
next
  case (Cons x xs)
  then obtain y ys' where ys: "ys = y # ys'" by (cases ys) auto
  have "(\<Sum>i<length (x # xs). mset (f ((x # xs) ! i) (ys ! i))) =
      mset (f x y) + (\<Sum>i<length xs. mset (f (xs ! i) (ys' ! i)))"
    unfolding length_Cons sum.lessThan_Suc_shift ys by simp
  then show ?case using Cons ys by simp
qed

lemma observed_fanout:
  assumes "join_all order (map (\<lambda>a. send a) addrs) (w, []) = (Return results, s1)"
    and "\<And>a s r s1. send a s = (Return r, s1) \<Longrightarrow> snd s1 = snd s @ evs a r"
  shows "mset (snd s1) = mset (concat (map2 evs addrs results))"
proof -
  let ?fs = "map (\<lambda>a. send a) addrs"
  have "mset (snd s1) = mset (snd (w, [])) + (\<Sum>i<length ?fs. mset (evs (addrs ! i) (results ! i)))"
    by (rule join_all_log[where log = "\<lambda>s. mset (snd s)", OF _ assms(1)])
       (use assms(2) in \<open>auto\<close>)
  then show ?thesis
    using sum_zip_mset[of results addrs evs] join_all_length[OF assms(1)] by simp
qed

section \<open>Properties\<close>


definition sample_client :: backend_tpu_client where
  "sample_client = \<lparr>fanout_slots = 8,
     leader_tpu_service = \<lparr>recent_slots = new_recent_slots 90, tpu_cache = sample_cache,
        cache_poisoned = False, task_spawned = True\<rparr>, exit_flag = False\<rparr>"

definition failing_ops :: "unit conn_ops" where
  "failing_ops = \<lparr>get_nonblocking_connection = (\<lambda>a w. (0, w)),
     conn_send_data = (\<lambda>c d w. (Return (Inl (TransportCustom ''refused'')), w)),
     conn_send_data_batch = (\<lambda>c ds w. (Return (Inl (TransportCustom ''refused'')), w))\<rparr>"

lemma sample_client_ok: "service_ok (leader_tpu_service sample_client)"
  by (simp add: service_ok_def sample_client_def slot_headroom_def new_recent_slots_def window_ok_def
      sample_cache_def)

lemma sample_client_sockets:
  "unique_leader_tpu_sockets sample_sdk Checked (leader_tpu_service sample_client) 8
     = Return [SocketV4 7 8009]"
proof -
  have e: "estimated_current_slot Checked (new_recent_slots 90) = Return 90"
    by (simp add: estimated_current_slot_def add_w_def MAX_SLOT_SKIP_DISTANCE_def Let_def)
  have "fanout_leader_slots sample_sdk 100 8 = [100, 104]"
    by (simp add: fanout_leader_slots_def sample_sdk_def Let_def upt_conv_Cons)
  moreover have "slot_socket sample_cache 100 = Some (SocketV4 7 8009)"
    and "slot_socket sample_cache 104 = None"
    by (simp_all add: slot_socket_def get_slot_leader_def sample_cache_def Let_def)
  ultimately have "get_unique_leader_sockets sample_sdk Checked sample_cache 90 8 = Return [SocketV4 7 8009]"
    by (subst get_unique_leader_sockets_fits)
       (simp_all add: sample_sdk_def sample_cache_def max_def map_filter_simps
          del: get_unique_leader_sockets_def)
  then show ?thesis
    using e by (simp add: unique_leader_tpu_sockets_def sample_client_def)
qed

lemma sample_fanout:
  "try_send_wire_transaction sample_sdk Checked (observed failing_ops) [] sample_client [1] ((), []) =
     (Return (Inl (TransportCustom ''refused'')),
      ((), [ConnectionFor (SocketV4 7 8009), DataSent [1] (Inl (TransportCustom ''refused''))]))"
proof -
  have "fanout_slots sample_client = 8" by (simp add: sample_client_def)
  then show ?thesis
    using sample_client_sockets
    by (simp add: try_send_wire_transaction_def join_all_def send_wire_transaction_to_addr_def
        observed_def failing_ops_def map_filter_simps collect_results_def)
qed



lemma sample_batch_fanout:
  "try_send_wire_transaction_batch sample_sdk Checked (observed failing_ops) [] sample_client
      [[1], [2]] ((), []) =
     (Return (Inl (TransportCustom ''refused'')),
      ((), [ConnectionFor (SocketV4 7 8009),
            BatchSent [[1], [2]] (Inl (TransportCustom ''refused''))]))"
proof -
  have "fanout_slots sample_client = 8" by (simp add: sample_client_def)
  then show ?thesis
    using sample_client_sockets
    by (simp add: try_send_wire_transaction_batch_def join_all_def
        send_wire_transaction_batch_to_addr_def observed_def failing_ops_def map_filter_simps
        collect_results_def)
qed




lemma send_to_each_trace:
  assumes "send_to_each (observed cc) tx addrs s = (Return r, s')"
  shows "\<exists>good. snd s' = snd s
      @ concat (map (\<lambda>a. [ConnectionFor a, DataSent tx (Inr ())]) good)
      @ (case r of Inr u \<Rightarrow> []
         | Inl e \<Rightarrow> [ConnectionFor (addrs ! length good), DataSent tx (Inl e)])
    \<and> good = take (length good) addrs
    \<and> (if r = Inr () then good = addrs else length good < length addrs)"
  using assms
proof (induction addrs arbitrary: s)
  case Nil
  then show ?case by (auto split: sum.split)
next
  case (Cons a addrs)
  obtain x s1 where x: "send_wire_transaction_to_addr (observed cc) a tx s = (Return x, s1)"
    using Cons.prems by (auto split: prod.splits outcome.splits)
  have s1: "snd s1 = snd s @ [ConnectionFor a, DataSent tx x]" using observed_send[OF x] .
  show ?case
  proof (cases x)
    case (Inl e)
    then have "r = Inl e \<and> s' = s1" using Cons.prems x by simp
    with s1 Inl show ?thesis by (intro exI[of _ "[]"]) simp
  next
    case (Inr u)
    then have "send_to_each (observed cc) tx addrs s1 = (Return r, s')" using Cons.prems x by simp
    from Cons.IH[OF this] obtain good where good: "snd s' = snd s1
      @ concat (map (\<lambda>a. [ConnectionFor a, DataSent tx (Inr ())]) good)
      @ (case r of Inr u \<Rightarrow> []
         | Inl e \<Rightarrow> [ConnectionFor (addrs ! length good), DataSent tx (Inl e)])"
      "good = take (length good) addrs" "if r = Inr () then good = addrs else length good < length addrs"
      by blast
    show ?thesis
      by (rule exI[of _ "a # good"]) (use good s1 Inr in \<open>simp split: if_splits sum.splits\<close>)
  qed
qed






lemma race_backend_client:
  "\<exists>cl w'. new_backend_client 21 sample_sdk race_env (\<lambda>_. None :: nat option) [] default_config 0
      = Some (Return (Inr cl), w')"
  using race_new_service by (auto simp: new_backend_client_def)


text \<open>
  The wrapper never returns an error: where the backend constructor returns one, the wrapper
  panics, and otherwise it wraps the backend client unchanged, so with a clock that does not run
  backwards 21 turns of fuel give a client or a panic.
\<close>
lemma wrapper_constructor_never_errs:
  assumes "clock_ok env"
  shows "(\<exists>t w'. new_tpu_client 21 k env pubsub url config w = Some (Return (Inr t), w')
             \<and> new_backend_client 21 k env pubsub url config w = Some (Return (Inr (tpu_client t)), w'))
       \<or> (\<exists>kind w'. new_tpu_client 21 k env pubsub url config w = Some (Panic kind, w')
             \<and> (new_backend_client 21 k env pubsub url config w = Some (Panic kind, w')
                \<or> (\<exists>e. new_backend_client 21 k env pubsub url config w = Some (Return (Inl e), w'))))"
proof -
  have "new_leader_service 21 k env pubsub url QUIC w \<noteq> None"
    by (rule service_constructor_returns[OF assms])
  then have "new_backend_client 21 k env pubsub url config w \<noteq> None"
    by (auto simp: new_backend_client_def split: prod.splits outcome.splits sum.splits)
  then show ?thesis
    by (auto simp: new_tpu_client_def split: prod.splits outcome.splits sum.splits)
qed

lemma wrapper_constructor_never_errs_witness:
  "\<exists>r w'. new_tpu_client 21 sample_sdk (race_env\<lparr>rpc_sleep := (\<lambda>d w. w + d)\<rparr>)
     (\<lambda>_. None :: nat option) [] default_config 0 = Some (r, w')"
proof -
  have "clock_ok (race_env\<lparr>rpc_sleep := (\<lambda>d w. w + d)\<rparr>)"
    by (simp add: clock_ok_def race_env_def)
  from wrapper_constructor_never_errs[OF this, where k = sample_sdk and w = 0]
  show ?thesis by blast
qed

text \<open>
  Shutting the client down raises the exit flag and consumes the service task; it panics
  exactly when a task was there that panicked or returned an error, and shutting down again never
  does. Nothing else of the client changes.
\<close>
lemma shutdown_is_idempotent:
  "snd (tpu_shutdown e t) = t\<lparr>tpu_client := (tpu_client t)\<lparr>exit_flag := True,
      leader_tpu_service := (leader_tpu_service (tpu_client t))\<lparr>task_spawned := False\<rparr>\<rparr>\<rparr>
   \<and> (fst (tpu_shutdown e t) = Return () \<longleftrightarrow>
        \<not> task_spawned (leader_tpu_service (tpu_client t)) \<or> e = TaskReturned (Inr ()))
   \<and> tpu_shutdown e' (snd (tpu_shutdown e t)) = (Return (), snd (tpu_shutdown e t))"
proof -
  let ?s = "leader_tpu_service (tpu_client t)"
  have s: "?s\<lparr>task_spawned := False\<rparr> = ?s" if "\<not> task_spawned ?s"
    using that by (cases ?s) simp
  have e: "(case e of TaskReturned (Inr u) \<Rightarrow> Return () | _ \<Rightarrow> Panic UnwrapFailed) = Return ()
      \<longleftrightarrow> e = TaskReturned (Inr ())"
    by (simp split: task_end.split sum.split)
  show ?thesis
    using e by (cases "task_spawned ?s")
      (simp_all add: tpu_shutdown_def shutdown_client_def join_service_def s)
qed

end
