(* ===== verification/Quic_Client.thy ===== *)
theory Quic_Client
  imports Transport Leader_Cache
begin

text \<open>
  The nonblocking QUIC client of \<open>src/src/quik/nonblocking/quik_client.rs\<close>: the lazily created
  endpoint, connecting with and without 0-RTT, the send loop with its reconnects, and the client
  connection that the connection cache hands out. The quinn, rustls and statistics libraries are
  the fields of the parameter \<open>quinn\<close> over an abstract world.
\<close>

section \<open>Errors\<close>

datatype connection_error = TimedOut | OtherConnectionError string

datatype write_error = Stopped nat | ConnectionLost connection_error | OtherWriteError string

datatype quic_error =
    WriteError write_error
  | ConnectionError connection_error
  | ConnectError string
  | ClosedStream

text \<open>\<open>ClientErrorKind::Custom\<close> of the error's debug text, which is the derived one.\<close>

datatype client_error_kind = CustomKind string

definition client_kind_of :: "(quic_error \<Rightarrow> string) \<Rightarrow> quic_error \<Rightarrow> client_error_kind" where
  "client_kind_of debug e = CustomKind (debug e)"

section \<open>Timeouts in milliseconds\<close>

definition QUIC_MAX_TIMEOUT :: nat where
  "QUIC_MAX_TIMEOUT = 200"

definition INITIAL_QUIC_CONNECTION_HANDSHAKE_TIMEOUT :: nat where
  "INITIAL_QUIC_CONNECTION_HANDSHAKE_TIMEOUT = 500"

definition QUIC_CONNECTION_HANDSHAKE_TIMEOUT :: nat where
  "QUIC_CONNECTION_HANDSHAKE_TIMEOUT = 300"

definition RECONNECTING_QUIC_CONNECTION_HANDSHAKE_TIMEOUT :: nat where
  "RECONNECTING_QUIC_CONNECTION_HANDSHAKE_TIMEOUT = 3000"

section \<open>The certificate verifier\<close>

text \<open>
  The signature checks go to rustls' own functions with the provider's algorithms; the server
  certificate itself is never looked at.
\<close>

datatype server_cert_verified = Assertion

record 'alg skip_server_verification =
  signature_verification_algorithms :: 'alg

definition verify_tls12_signature ::
  "(bytes \<Rightarrow> bytes \<Rightarrow> bytes \<Rightarrow> 'alg \<Rightarrow> 'e + 'ok) \<Rightarrow> 'alg skip_server_verification
    \<Rightarrow> bytes \<Rightarrow> bytes \<Rightarrow> bytes \<Rightarrow> 'e + 'ok" where
  "verify_tls12_signature rustls12 self message cert dss =
     rustls12 message cert dss (signature_verification_algorithms self)"

definition verify_tls13_signature ::
  "(bytes \<Rightarrow> bytes \<Rightarrow> bytes \<Rightarrow> 'alg \<Rightarrow> 'e + 'ok) \<Rightarrow> 'alg skip_server_verification
    \<Rightarrow> bytes \<Rightarrow> bytes \<Rightarrow> bytes \<Rightarrow> 'e + 'ok" where
  "verify_tls13_signature rustls13 self message cert dss =
     rustls13 message cert dss (signature_verification_algorithms self)"

definition verify_server_cert ::
  "'alg skip_server_verification \<Rightarrow> bytes \<Rightarrow> bytes list \<Rightarrow> string \<Rightarrow> bytes \<Rightarrow> nat
    \<Rightarrow> 'e + server_cert_verified" where
  "verify_server_cert self end_entity intermediates server_name ocsp_response now = Inr Assertion"

section \<open>State\<close>

record quic_client_certificate =
  certificate :: bytes
  private_key :: bytes

record quic_client_config =
  cfg_cert_chain :: "bytes list"
  cfg_key :: bytes
  cfg_early_data :: bool
  cfg_alpn :: "bytes list"
  cfg_max_idle_ms :: nat
  cfg_keep_alive_ms :: nat

record quic_endpoint =
  ep_handle :: nat
  default_client_config :: "quic_client_config option"

record lazy_endpoint =
  endpoint_cell :: "quic_endpoint option"
  client_certificate :: quic_client_certificate
  client_endpoint :: "quic_endpoint option"

record quic_connection =
  stable_id :: u64
  conn_handle :: nat

record quic_new_connection =
  nc_endpoint :: quic_endpoint
  nc_connection :: quic_connection

text \<open>The counters of \<open>ClientStats\<close> that the client updates; \<open>fetch_add\<close> wraps around.\<close>

record client_stats =
  total_connections :: u64
  connection_reuse :: u64
  connection_errors :: u64
  zero_rtt_accepts :: u64
  zero_rtt_rejects :: u64
  make_connection_ms :: u64
  send_packets_us :: u64
  successful_packets :: u64
  prepare_connection_us :: u64
  send_timeout :: u64

definition default_client_stats :: client_stats where
  "default_client_stats = \<lparr>total_connections = 0, connection_reuse = 0, connection_errors = 0,
     zero_rtt_accepts = 0, zero_rtt_rejects = 0, make_connection_ms = 0, send_packets_us = 0,
     successful_packets = 0, prepare_connection_us = 0, send_timeout = 0\<rparr>"

text \<open>The client's own moving statistics, the last values it has seen of its connection.\<close>

record moving_stats =
  congestion_events :: u64
  streams_blocked_uni :: u64
  data_blocked :: u64
  acks :: u64

datatype moving_stat = CongestionEvents | StreamsBlockedUni | DataBlocked | Acks

record quic_client =
  client_connection :: "quic_new_connection option"
  client_addr :: socket_addr
  client_moving :: moving_stats

definition new_quic_client :: "socket_addr \<Rightarrow> quic_client" where
  "new_quic_client addr =
     \<lparr>client_connection = None, client_addr = addr,
      client_moving = \<lparr>congestion_events = 0, streams_blocked_uni = 0, data_blocked = 0, acks = 0\<rparr>\<rparr>"

text \<open>The endpoint that a pool's clients share, one client, and the world.\<close>

record 'w quic_state =
  qs_endpoint :: lazy_endpoint
  qs_client :: quic_client
  qs_world :: 'w

text \<open>
  What the code calls of its libraries. \<open>q_lock\<close> waits for the client's mutex: other tasks may
  use the client until it is granted, so it maps a state to a state. A \<open>timeout\<close> that elapses is
  the result \<open>None\<close>.
\<close>

record 'w quinn =
  q_bind_in_range :: "'w \<Rightarrow> nat option \<times> 'w"
  q_new_endpoint :: "nat \<Rightarrow> 'w \<Rightarrow> nat option \<times> 'w"
  q_client_auth_ok :: "quic_client_certificate \<Rightarrow> bool"
  q_initial_cipher_ok :: bool
  q_alpn_tpu :: bytes
  q_keep_alive_ms :: nat
  q_connect :: "quic_endpoint \<Rightarrow> socket_addr \<Rightarrow> 'w \<Rightarrow> (string + nat) \<times> 'w"
  q_handshake :: "nat \<Rightarrow> nat \<Rightarrow> 'w \<Rightarrow> (connection_error + quic_connection) option \<times> 'w"
  q_into_0rtt :: "nat \<Rightarrow> 'w \<Rightarrow> (nat + quic_connection) \<times> 'w"
  q_zero_rtt_accepted :: "nat \<Rightarrow> quic_connection \<Rightarrow> 'w \<Rightarrow> bool option \<times> 'w"
  q_open_uni :: "quic_connection \<Rightarrow> 'w \<Rightarrow> (connection_error + nat) \<times> 'w"
  q_write_all :: "nat \<Rightarrow> bytes \<Rightarrow> 'w \<Rightarrow> (write_error + unit) \<times> 'w"
  q_path_stats :: "quic_connection \<Rightarrow> 'w \<Rightarrow> moving_stats"
  q_update_stat :: "moving_stat \<Rightarrow> u64 \<Rightarrow> u64 \<Rightarrow> 'w \<Rightarrow> u64 \<times> 'w"
  q_add_client_stats :: "client_stats \<Rightarrow> nat \<Rightarrow> bool \<Rightarrow> 'w \<Rightarrow> 'w"
  q_now_ns :: "'w \<Rightarrow> nat"
  q_lock :: "'w quic_state \<Rightarrow> 'w quic_state"

section \<open>The lazily created endpoint\<close>

definition new_lazy_endpoint ::
  "quic_client_certificate \<Rightarrow> quic_endpoint option \<Rightarrow> lazy_endpoint" where
  "new_lazy_endpoint cert ep = \<lparr>endpoint_cell = None, client_certificate = cert, client_endpoint = ep\<rparr>"

text \<open>The default: a fresh dummy certificate of a fresh key pair, and no given endpoint.\<close>

definition default_lazy_endpoint ::
  "('kp \<Rightarrow> bytes \<times> bytes) \<Rightarrow> 'kp \<Rightarrow> lazy_endpoint" where
  "default_lazy_endpoint new_dummy_x509_certificate fresh =
     (let (cert, priv_key) = new_dummy_x509_certificate fresh
      in new_lazy_endpoint \<lparr>certificate = cert, private_key = priv_key\<rparr> None)"

text \<open>\<open>QuicNewConnection::create_endpoint\<close>: \<open>quinn::Endpoint::new\<close> with an \<open>expect\<close>.\<close>

definition create_quinn_endpoint ::
  "'w quinn \<Rightarrow> nat \<Rightarrow> 'w \<Rightarrow> quic_endpoint outcome \<times> 'w" where
  "create_quinn_endpoint q client_socket w =
     (case q_new_endpoint q client_socket w of
        (None, w1) \<Rightarrow> (Panic UnwrapFailed, w1)
      | (Some h, w1) \<Rightarrow> (Return \<lparr>ep_handle = h, default_client_config = None\<rparr>, w1))"

definition crypto_config :: "'w quinn \<Rightarrow> lazy_endpoint \<Rightarrow> quic_client_config" where
  "crypto_config q le =
     \<lparr>cfg_cert_chain = [certificate (client_certificate le)],
      cfg_key = private_key (client_certificate le), cfg_early_data = True,
      cfg_alpn = [q_alpn_tpu q], cfg_max_idle_ms = QUIC_MAX_TIMEOUT,
      cfg_keep_alive_ms = q_keep_alive_ms q\<rparr>"

definition base_endpoint :: "'w quinn \<Rightarrow> lazy_endpoint \<Rightarrow> 'w \<Rightarrow> quic_endpoint outcome \<times> 'w" where
  "base_endpoint q le w =
     (case client_endpoint le of
        Some ep \<Rightarrow> (Return ep, w)
      | None \<Rightarrow> (case q_bind_in_range q w of
            (None, w1) \<Rightarrow> (Panic UnwrapFailed, w1)
          | (Some client_socket, w1) \<Rightarrow> create_quinn_endpoint q client_socket w1))"

definition create_endpoint :: "'w quinn \<Rightarrow> lazy_endpoint \<Rightarrow> 'w \<Rightarrow> quic_endpoint outcome \<times> 'w" where
  "create_endpoint q le w =
     (case base_endpoint q le w of
        (Panic e, w1) \<Rightarrow> (Panic e, w1)
      | (Return ep, w1) \<Rightarrow>
          if \<not> q_client_auth_ok q (client_certificate le) \<or> \<not> q_initial_cipher_ok q
          then (Panic UnwrapFailed, w1)
          else (Return (ep\<lparr>default_client_config := Some (crypto_config q le)\<rparr>), w1))"

definition get_endpoint ::
  "'w quinn \<Rightarrow> 'w quic_state \<Rightarrow> quic_endpoint outcome \<times> 'w quic_state" where
  "get_endpoint q s =
     (case endpoint_cell (qs_endpoint s) of
        Some ep \<Rightarrow> (Return ep, s)
      | None \<Rightarrow> (case create_endpoint q (qs_endpoint s) (qs_world s) of
            (Panic e, w1) \<Rightarrow> (Panic e, s\<lparr>qs_world := w1\<rparr>)
          | (Return ep, w1) \<Rightarrow>
              (Return ep, s\<lparr>qs_endpoint := (qs_endpoint s)\<lparr>endpoint_cell := Some ep\<rparr>, qs_world := w1\<rparr>)))"

section \<open>Connecting\<close>

text \<open>
  A first connection: the endpoint, the connect call, and the handshake within 500 ms. The world
  is threaded through the clock readings of the measure.
\<close>

definition make_connection ::
  "'w quinn \<Rightarrow> socket_addr \<Rightarrow> client_stats \<Rightarrow> 'w quic_state
    \<Rightarrow> (quic_error + quic_new_connection) outcome \<times> client_stats \<times> 'w quic_state" where
  "make_connection q addr stats s =
     (let start = q_now_ns q (qs_world s) in
      case get_endpoint q s of
        (Panic e, s1) \<Rightarrow> (Panic e, stats, s1)
      | (Return ep, s1) \<Rightarrow>
     (case q_connect q ep addr (qs_world s1) of
        (Inl e, w2) \<Rightarrow> (Return (Inl (ConnectError e)), stats, s1\<lparr>qs_world := w2\<rparr>)
      | (Inr connecting, w2) \<Rightarrow>
     (let stats1 = stats\<lparr>total_connections := total_connections stats + 1\<rparr> in
      case q_handshake q INITIAL_QUIC_CONNECTION_HANDSHAKE_TIMEOUT connecting w2 of
        (None, w3) \<Rightarrow> (Return (Inl (ConnectionError TimedOut)), stats1, s1\<lparr>qs_world := w3\<rparr>)
      | (Some connecting_result, w3) \<Rightarrow>
          (let stats2 = (case connecting_result of
                 Inl ce \<Rightarrow> stats1\<lparr>connection_errors := connection_errors stats1 + 1\<rparr>
               | Inr c \<Rightarrow> stats1);
               stats3 = stats2\<lparr>make_connection_ms := make_connection_ms stats2
                   + of_nat ((q_now_ns q w3 - start) div 1000000)\<rparr>
           in (case connecting_result of
                 Inl ce \<Rightarrow> (Return (Inl (ConnectionError ce)), stats3, s1\<lparr>qs_world := w3\<rparr>)
               | Inr connection \<Rightarrow>
                   (Return (Inr \<lparr>nc_endpoint = ep, nc_connection = connection\<rparr>), stats3,
                    s1\<lparr>qs_world := w3\<rparr>))))))"

text \<open>
  A reconnect on the stored endpoint: 0-RTT where key material is left, otherwise a full
  handshake within 3 s. Only a success replaces the stored connection.
\<close>

definition make_connection_0rtt ::
  "'w quinn \<Rightarrow> quic_new_connection \<Rightarrow> socket_addr \<Rightarrow> client_stats \<Rightarrow> 'w
    \<Rightarrow> (quic_error + quic_connection) \<times> quic_new_connection \<times> client_stats \<times> 'w" where
  "make_connection_0rtt q nc addr stats w =
     (case q_connect q (nc_endpoint nc) addr w of
        (Inl e, w1) \<Rightarrow> (Inl (ConnectError e), nc, stats, w1)
      | (Inr connecting, w1) \<Rightarrow>
     (let stats1 = stats\<lparr>total_connections := total_connections stats + 1\<rparr> in
      case q_into_0rtt q connecting w1 of
        (Inr connection, w2) \<Rightarrow>
          (case q_zero_rtt_accepted q QUIC_CONNECTION_HANDSHAKE_TIMEOUT connection w2 of
             (None, w3) \<Rightarrow> (Inl (ConnectionError TimedOut), nc, stats1, w3)
           | (Some zero_rtt, w3) \<Rightarrow>
               (Inr connection, nc\<lparr>nc_connection := connection\<rparr>,
                (if zero_rtt then stats1\<lparr>zero_rtt_accepts := zero_rtt_accepts stats1 + 1\<rparr>
                 else stats1\<lparr>zero_rtt_rejects := zero_rtt_rejects stats1 + 1\<rparr>), w3))
      | (Inl connecting', w2) \<Rightarrow>
          (let stats2 = stats1\<lparr>connection_errors := connection_errors stats1 + 1\<rparr> in
           case q_handshake q RECONNECTING_QUIC_CONNECTION_HANDSHAKE_TIMEOUT connecting' w2 of
             (None, w3) \<Rightarrow> (Inl (ConnectionError TimedOut), nc, stats2, w3)
           | (Some (Inl ce), w3) \<Rightarrow> (Inl (ConnectionError ce), nc, stats2, w3)
           | (Some (Inr connection), w3) \<Rightarrow>
               (Inr connection, nc\<lparr>nc_connection := connection\<rparr>, stats2, w3))))"

section \<open>Sending one buffer\<close>

definition send_buffer_using_conn ::
  "'w quinn \<Rightarrow> bytes \<Rightarrow> quic_connection \<Rightarrow> 'w \<Rightarrow> (quic_error + unit) \<times> 'w" where
  "send_buffer_using_conn q data connection w =
     (case q_open_uni q connection w of
        (Inl ce, w1) \<Rightarrow> (Inl (ConnectionError ce), w1)
      | (Inr send_stream, w1) \<Rightarrow>
          (case q_write_all q send_stream data w1 of
             (Inl we, w2) \<Rightarrow> (Inl (WriteError we), w2)
           | (Inr u, w2) \<Rightarrow> (Inr (), w2)))"

text \<open>
  The part of the loop that holds the mutex: it picks the connection and the new try count.
  \<open>stable_id\<close> equal to the last id means the connection that has just failed.
\<close>

definition acquire_connection ::
  "'w quinn \<Rightarrow> nat \<Rightarrow> u64 \<Rightarrow> client_stats \<Rightarrow> 'w quic_state
    \<Rightarrow> (quic_error + quic_connection \<times> nat) outcome \<times> client_stats \<times> 'w quic_state" where
  "acquire_connection q connection_try_count last_connection_id stats s =
     (case client_connection (qs_client s) of
        Some conn \<Rightarrow>
          if stable_id (nc_connection conn) = last_connection_id then
            (let (r, nc, stats1, w1) =
                   make_connection_0rtt q conn (client_addr (qs_client s)) stats (qs_world s);
                 s1 = s\<lparr>qs_client := (qs_client s)\<lparr>client_connection := Some nc\<rparr>, qs_world := w1\<rparr>
             in (case r of
                   Inr c \<Rightarrow> (Return (Inr (c, connection_try_count + 1)), stats1, s1)
                 | Inl err \<Rightarrow> (Return (Inl err), stats1, s1)))
          else (Return (Inr (nc_connection conn, connection_try_count)),
                stats\<lparr>connection_reuse := connection_reuse stats + 1\<rparr>, s)
      | None \<Rightarrow>
          (case make_connection q (client_addr (qs_client s)) stats s of
             (Panic e, stats1, s1) \<Rightarrow> (Panic e, stats1, s1)
           | (Return (Inl err), stats1, s1) \<Rightarrow> (Return (Inl err), stats1, s1)
           | (Return (Inr conn), stats1, s1) \<Rightarrow>
               (Return (Inr (nc_connection conn, connection_try_count + 1)), stats1,
                s1\<lparr>qs_client := (qs_client s1)\<lparr>client_connection := Some conn\<rparr>\<rparr>)))"

text \<open>The four moving statistics are updated with the connection's current values.\<close>

definition update_moving_stats ::
  "'w quinn \<Rightarrow> quic_connection \<Rightarrow> 'w quic_state \<Rightarrow> 'w quic_state" where
  "update_moving_stats q connection s =
     (let new_stats = q_path_stats q connection (qs_world s);
          old = client_moving (qs_client s);
          (c, w1) = q_update_stat q CongestionEvents (congestion_events old)
                      (congestion_events new_stats) (qs_world s);
          (b, w2) = q_update_stat q StreamsBlockedUni (streams_blocked_uni old)
                      (streams_blocked_uni new_stats) w1;
          (d, w3) = q_update_stat q DataBlocked (data_blocked old) (data_blocked new_stats) w2;
          (a, w4) = q_update_stat q Acks (acks old) (acks new_stats) w3
      in s\<lparr>qs_client := (qs_client s)\<lparr>client_moving :=
              \<lparr>congestion_events = c, streams_blocked_uni = b, data_blocked = d, acks = a\<rparr>\<rparr>,
           qs_world := w4\<rparr>)"

text \<open>
  The rest of the loop body, without the mutex: the moving statistics, the early return that only
  warms the connection, and the send. \<open>start\<close> is when both measures were started.
\<close>

definition send_on_connection ::
  "'w quinn \<Rightarrow> bytes \<Rightarrow> nat \<Rightarrow> quic_connection \<Rightarrow> client_stats \<Rightarrow> 'w quic_state
    \<Rightarrow> (quic_error + unit) \<times> client_stats \<times> 'w quic_state" where
  "send_on_connection q data start connection stats s =
     (let s1 = update_moving_stats q connection s in
      if data = [] then (Inr (), stats, s1)
      else
        (let prepared = q_now_ns q (qs_world s1);
             (r, w2) = send_buffer_using_conn q data connection (qs_world s1);
             s2 = s1\<lparr>qs_world := w2\<rparr>
         in case r of
              Inr u \<Rightarrow> (Inr (),
                stats\<lparr>successful_packets := successful_packets stats + 1,
                      send_packets_us := send_packets_us stats
                        + of_nat ((q_now_ns q w2 - start) div 1000),
                      prepare_connection_us := prepare_connection_us stats
                        + of_nat ((prepared - start) div 1000)\<rparr>, s2)
            | Inl err \<Rightarrow> (Inl err, stats, s2)))"

text \<open>The loop of \<open>_send_buffer\<close>; \<open>None\<close> is spent fuel.\<close>

fun send_buffer_loop ::
  "nat \<Rightarrow> 'w quinn \<Rightarrow> bytes \<Rightarrow> nat \<Rightarrow> nat \<Rightarrow> u64 \<Rightarrow> quic_error option \<Rightarrow> client_stats \<Rightarrow> 'w quic_state
    \<Rightarrow> ((quic_error + quic_connection) outcome \<times> client_stats \<times> 'w quic_state) option" where
  "send_buffer_loop 0 q data start try_count last_id last_error stats s = None"
| "send_buffer_loop (Suc fuel) q data start try_count last_id last_error stats s =
     (if try_count < 2 then
        (case acquire_connection q try_count last_id stats (q_lock q s) of
           (Panic e, stats1, s1) \<Rightarrow> Some (Panic e, stats1, s1)
         | (Return (Inl err), stats1, s1) \<Rightarrow> Some (Return (Inl err), stats1, s1)
         | (Return (Inr (connection, try_count1)), stats1, s1) \<Rightarrow>
             (case send_on_connection q data start connection stats1 s1 of
                (Inr u, stats2, s2) \<Rightarrow> Some (Return (Inr connection), stats2, s2)
              | (Inl (ConnectionError ce), stats2, s2) \<Rightarrow>
                  send_buffer_loop fuel q data start try_count1 (stable_id connection)
                    (Some (ConnectionError ce)) stats2 s2
              | (Inl err, stats2, s2) \<Rightarrow> Some (Return (Inl err), stats2, s2)))
      else Some ((case last_error of None \<Rightarrow> Panic UnwrapFailed | Some err \<Rightarrow> Return (Inl err)),
                 stats, s))"

text \<open>\<open>_send_buffer\<close>, \<open>send_buffer\<close> and \<open>send_batch\<close>.\<close>

definition send_buffer0 ::
  "nat \<Rightarrow> 'w quinn \<Rightarrow> bytes \<Rightarrow> client_stats \<Rightarrow> 'w quic_state
    \<Rightarrow> ((quic_error + quic_connection) outcome \<times> client_stats \<times> 'w quic_state) option" where
  "send_buffer0 fuel q data stats s =
     send_buffer_loop fuel q data (q_now_ns q (qs_world s)) 0 0 None stats s"

definition send_buffer ::
  "nat \<Rightarrow> 'w quinn \<Rightarrow> (quic_error \<Rightarrow> string) \<Rightarrow> bytes \<Rightarrow> client_stats \<Rightarrow> 'w quic_state
    \<Rightarrow> ((client_error_kind + unit) outcome \<times> client_stats \<times> 'w quic_state) option" where
  "send_buffer fuel q debug data stats s =
     (case send_buffer0 fuel q data stats s of
        None \<Rightarrow> None
      | Some (Panic e, stats1, s1) \<Rightarrow> Some (Panic e, stats1, s1)
      | Some (Return (Inl err), stats1, s1) \<Rightarrow>
          Some (Return (Inl (client_kind_of debug err)), stats1, s1)
      | Some (Return (Inr c), stats1, s1) \<Rightarrow> Some (Return (Inr ()), stats1, s1))"

text \<open>The rest of a batch goes over one connection; the first error ends it.\<close>

fun send_rest ::
  "'w quinn \<Rightarrow> (quic_error \<Rightarrow> string) \<Rightarrow> quic_connection \<Rightarrow> bytes list \<Rightarrow> 'w
    \<Rightarrow> (client_error_kind + unit) \<times> 'w" where
  "send_rest q debug connection [] w = (Inr (), w)"
| "send_rest q debug connection (data # rest) w =
     (case send_buffer_using_conn q data connection w of
        (Inl err, w1) \<Rightarrow> (Inl (client_kind_of debug err), w1)
      | (Inr u, w1) \<Rightarrow> send_rest q debug connection rest w1)"

definition send_batch ::
  "nat \<Rightarrow> 'w quinn \<Rightarrow> (quic_error \<Rightarrow> string) \<Rightarrow> bytes list \<Rightarrow> client_stats \<Rightarrow> 'w quic_state
    \<Rightarrow> ((client_error_kind + unit) outcome \<times> client_stats \<times> 'w quic_state) option" where
  "send_batch fuel q debug buffers stats s =
     (case buffers of
        [] \<Rightarrow> Some (Return (Inr ()), stats, s)
      | first # rest \<Rightarrow>
          (case send_buffer0 fuel q first stats s of
             None \<Rightarrow> None
           | Some (Panic e, stats1, s1) \<Rightarrow> Some (Panic e, stats1, s1)
           | Some (Return (Inl err), stats1, s1) \<Rightarrow>
               Some (Return (Inl (client_kind_of debug err)), stats1, s1)
           | Some (Return (Inr connection), stats1, s1) \<Rightarrow>
               (let (r, w2) = send_rest q debug connection rest (qs_world s1)
                in Some (Return r, stats1, s1\<lparr>qs_world := w2\<rparr>))))"

section \<open>The client connection\<close>

text \<open>
  A connection object: a client with the endpoint it shares, and the statistics of the cache by
  their handle. Its sends run on the state \<open>connection_state\<close> gives.
\<close>

record quic_client_connection =
  conn_endpoint :: lazy_endpoint
  conn_client :: quic_client
  connection_stats :: nat

definition new_with_client :: "lazy_endpoint \<Rightarrow> quic_client \<Rightarrow> nat \<Rightarrow> quic_client_connection" where
  "new_with_client ep client stats =
     \<lparr>conn_endpoint = ep, conn_client = client, connection_stats = stats\<rparr>"

definition new_quic_client_connection ::
  "lazy_endpoint \<Rightarrow> socket_addr \<Rightarrow> nat \<Rightarrow> quic_client_connection" where
  "new_quic_client_connection ep addr stats = new_with_client ep (new_quic_client addr) stats"

definition server_addr :: "quic_client_connection \<Rightarrow> socket_addr" where
  "server_addr conn = client_addr (conn_client conn)"

definition connection_state :: "quic_client_connection \<Rightarrow> 'w \<Rightarrow> 'w quic_state" where
  "connection_state conn w =
     \<lparr>qs_endpoint = conn_endpoint conn, qs_client = conn_client conn, qs_world = w\<rparr>"

text \<open>
  \<open>send_data\<close> and \<open>send_data_batch\<close>: fresh statistics per call, handed to the cache's statistics
  with the number of packets and the success flag; \<open>to_transport\<close> is the conversion of a client
  error into a transport error.
\<close>

definition send_data ::
  "nat \<Rightarrow> 'w quinn \<Rightarrow> (quic_error \<Rightarrow> string) \<Rightarrow> (client_error_kind \<Rightarrow> transport_error) \<Rightarrow> bytes
    \<Rightarrow> 'w quic_state \<Rightarrow> (send_result outcome \<times> 'w quic_state) option" where
  "send_data fuel q debug to_transport data s =
     (let num_packets = (if data = [] then 0 else 1) in
      case send_buffer fuel q debug data default_client_stats s of
        None \<Rightarrow> None
      | Some (Panic e, stats, s1) \<Rightarrow> Some (Panic e, s1)
      | Some (Return (Inr u), stats, s1) \<Rightarrow>
          Some (Return (Inr ()), s1\<lparr>qs_world := q_add_client_stats q stats num_packets True (qs_world s1)\<rparr>)
      | Some (Return (Inl e), stats, s1) \<Rightarrow>
          Some (Return (Inl (to_transport e)),
                s1\<lparr>qs_world := q_add_client_stats q stats num_packets False (qs_world s1)\<rparr>))"

definition send_data_batch ::
  "nat \<Rightarrow> 'w quinn \<Rightarrow> (quic_error \<Rightarrow> string) \<Rightarrow> (client_error_kind \<Rightarrow> transport_error) \<Rightarrow> bytes list
    \<Rightarrow> 'w quic_state \<Rightarrow> (send_result outcome \<times> 'w quic_state) option" where
  "send_data_batch fuel q debug to_transport buffers s =
     (case send_batch fuel q debug buffers default_client_stats s of
        None \<Rightarrow> None
      | Some (Panic e, stats, s1) \<Rightarrow> Some (Panic e, s1)
      | Some (Return r, stats, s1) \<Rightarrow>
          Some (Return (case r of Inr u \<Rightarrow> Inr () | Inl e \<Rightarrow> Inl (to_transport e)),
                s1\<lparr>qs_world := q_add_client_stats q stats (length buffers)
                     (case r of Inr u \<Rightarrow> True | Inl e \<Rightarrow> False) (qs_world s1)\<rparr>))"

section \<open>Observing the client\<close>

text \<open>
  The same libraries with a log beside the world: connection attempts, streams opened, writes and
  the statistics reported to the cache. The log of the tasks that use the client while this one
  waits for the mutex is not part of it.
\<close>

datatype quic_event =
    Connecting socket_addr
  | Opened quic_connection "connection_error + nat"
  | Wrote nat bytes "write_error + unit"
  | Reported client_stats nat bool

definition lifted :: "('w \<Rightarrow> 'r \<times> 'w) \<Rightarrow> 'w \<times> 'l \<Rightarrow> 'r \<times> 'w \<times> 'l" where
  "lifted f s = (let (r, w) = f (fst s) in (r, w, snd s))"

definition logged ::
  "('r \<Rightarrow> 'l) \<Rightarrow> ('w \<Rightarrow> 'r \<times> 'w) \<Rightarrow> 'w \<times> 'l list \<Rightarrow> 'r \<times> 'w \<times> 'l list" where
  "logged ev f s = (let (r, w) = f (fst s) in (r, w, snd s @ [ev r]))"

definition observed_quinn :: "'w quinn \<Rightarrow> ('w \<times> quic_event list) quinn" where
  "observed_quinn q =
     \<lparr>q_bind_in_range = lifted (q_bind_in_range q),
      q_new_endpoint = (\<lambda>sock. lifted (q_new_endpoint q sock)),
      q_client_auth_ok = q_client_auth_ok q, q_initial_cipher_ok = q_initial_cipher_ok q,
      q_alpn_tpu = q_alpn_tpu q, q_keep_alive_ms = q_keep_alive_ms q,
      q_connect = (\<lambda>ep addr. logged (\<lambda>r. Connecting addr) (q_connect q ep addr)),
      q_handshake = (\<lambda>t c. lifted (q_handshake q t c)),
      q_into_0rtt = (\<lambda>c. lifted (q_into_0rtt q c)),
      q_zero_rtt_accepted = (\<lambda>t c. lifted (q_zero_rtt_accepted q t c)),
      q_open_uni = (\<lambda>c. logged (Opened c) (q_open_uni q c)),
      q_write_all = (\<lambda>st d. logged (Wrote st d) (q_write_all q st d)),
      q_path_stats = (\<lambda>c s. q_path_stats q c (fst s)),
      q_update_stat = (\<lambda>m a b. lifted (q_update_stat q m a b)),
      q_add_client_stats = (\<lambda>st n ok s. (q_add_client_stats q st n ok (fst s), snd s @ [Reported st n ok])),
      q_now_ns = (\<lambda>s. q_now_ns q (fst s)),
      q_lock = (\<lambda>s. let s1 = q_lock q \<lparr>qs_endpoint = qs_endpoint s, qs_client = qs_client s,
                                       qs_world = fst (qs_world s)\<rparr>
                    in \<lparr>qs_endpoint = qs_endpoint s1, qs_client = qs_client s1,
                        qs_world = (qs_world s1, snd (qs_world s))\<rparr>)\<rparr>"

text \<open>The log of a state, and what it says of writes, connection attempts and reports.\<close>

fun written_of :: "quic_event \<Rightarrow> (bytes \<times> (write_error + unit)) option" where
  "written_of (Wrote st d r) = Some (d, r)"
| "written_of _ = None"

fun report_of :: "quic_event \<Rightarrow> (u64 \<times> nat \<times> bool) option" where
  "report_of (Reported st n ok) = Some (successful_packets st, n, ok)"
| "report_of _ = None"

fun connect_of :: "quic_event \<Rightarrow> socket_addr option" where
  "connect_of (Connecting a) = Some a"
| "connect_of _ = None"

definition written :: "'w \<times> quic_event list \<Rightarrow> (bytes \<times> (write_error + unit)) list" where
  "written w = List.map_filter written_of (snd w)"

definition reports :: "'w \<times> quic_event list \<Rightarrow> (u64 \<times> nat \<times> bool) list" where
  "reports w = List.map_filter report_of (snd w)"

definition connects :: "'w \<times> quic_event list \<Rightarrow> socket_addr list" where
  "connects w = List.map_filter connect_of (snd w)"

lemma map_filter_append: "List.map_filter f (xs @ ys) = List.map_filter f xs @ List.map_filter f ys"
  by (simp add: List.map_filter_def)

lemma log_snoc:
  "snd w' = snd w @ [Connecting a] \<Longrightarrow>
     written w' = written w \<and> reports w' = reports w \<and> connects w' = connects w @ [a]"
  "snd w' = snd w @ [Opened c r] \<Longrightarrow>
     written w' = written w \<and> reports w' = reports w \<and> connects w' = connects w"
  "snd w' = snd w @ [Wrote st d x] \<Longrightarrow>
     written w' = written w @ [(d, x)] \<and> reports w' = reports w \<and> connects w' = connects w"
  "snd w' = snd w @ [Reported cs n ok] \<Longrightarrow>
     written w' = written w \<and> reports w' = reports w @ [(successful_packets cs, n, ok)]
     \<and> connects w' = connects w"
  by (simp_all add: written_def reports_def connects_def map_filter_append map_filter_simps)

text \<open>
  \<open>effects w w' ws rs cs\<close>: between the two worlds exactly the writes \<open>ws\<close>, the reports \<open>rs\<close> and
  the connection attempts \<open>cs\<close> were added to the log.
\<close>

definition effects ::
  "'w \<times> quic_event list \<Rightarrow> 'w \<times> quic_event list \<Rightarrow> (bytes \<times> (write_error + unit)) list
    \<Rightarrow> (u64 \<times> nat \<times> bool) list \<Rightarrow> socket_addr list \<Rightarrow> bool" where
  "effects w w' ws rs cs \<longleftrightarrow>
     written w' = written w @ ws \<and> reports w' = reports w @ rs \<and> connects w' = connects w @ cs"

lemma effects_trans:
  "effects a b ws rs cs \<Longrightarrow> effects b c ws' rs' cs' \<Longrightarrow> effects a c (ws @ ws') (rs @ rs') (cs @ cs')"
  by (simp add: effects_def)

lemma effects_same_log: "snd w' = snd w \<Longrightarrow> effects w w' [] [] []"
  by (simp add: effects_def written_def reports_def connects_def)

lemma effects_refl [simp]: "effects w w [] [] []"
  by (simp add: effects_def)

lemma lifted_log: "lifted f w = (r, w') \<Longrightarrow> snd w' = snd w"
  by (auto simp: lifted_def split: prod.splits)

lemma logged_log: "logged ev f w = (r, w') \<Longrightarrow> snd w' = snd w @ [ev r]"
  by (auto simp: logged_def split: prod.splits)

lemma observed_connect:
  assumes "q_connect (observed_quinn q) ep addr w = (r, w')"
  shows "effects w w' [] [] [addr]"
  using logged_log[of "\<lambda>r. Connecting addr" "q_connect q ep addr" w r w'] assms log_snoc(1)[of w' w addr]
  by (simp add: observed_quinn_def effects_def)

lemma observed_open_uni:
  assumes "q_open_uni (observed_quinn q) c w = (r, w')"
  shows "effects w w' [] [] []"
  using logged_log[of "Opened c" "q_open_uni q c" w r w'] assms log_snoc(2)[of w' w c r]
  by (simp add: observed_quinn_def effects_def)

lemma observed_write_all:
  assumes "q_write_all (observed_quinn q) st d w = (r, w')"
  shows "effects w w' [(d, r)] [] []"
  using logged_log[of "Wrote st d" "q_write_all q st d" w r w'] assms log_snoc(3)[of w' w st d r]
  by (simp add: observed_quinn_def effects_def)

lemma observed_report: "effects w (q_add_client_stats (observed_quinn q) cs n ok w) [] [(successful_packets cs, n, ok)] []"
  using log_snoc(4)[of "q_add_client_stats (observed_quinn q) cs n ok w" w cs n ok]
  by (simp add: observed_quinn_def effects_def)

lemma observed_lifted:
  "q_bind_in_range (observed_quinn q) w = (r1, w') \<Longrightarrow> snd w' = snd w"
  "q_new_endpoint (observed_quinn q) sock w = (r1, w') \<Longrightarrow> snd w' = snd w"
  "q_handshake (observed_quinn q) t h w = (r2, w') \<Longrightarrow> snd w' = snd w"
  "q_into_0rtt (observed_quinn q) h w = (r3, w') \<Longrightarrow> snd w' = snd w"
  "q_zero_rtt_accepted (observed_quinn q) t c w = (r4, w') \<Longrightarrow> snd w' = snd w"
  "q_update_stat (observed_quinn q) m a b w = (r5, w') \<Longrightarrow> snd w' = snd w"
  by (auto simp: observed_quinn_def dest: lifted_log)

lemma observed_lock: "snd (qs_world (q_lock (observed_quinn q) s)) = snd (qs_world s)"
  by (simp add: observed_quinn_def Let_def)

section \<open>Effects of the steps\<close>

lemma send_buffer_using_conn_effects:
  assumes "send_buffer_using_conn (observed_quinn q) data c w = (r, w')"
  shows "case r of
      Inr u \<Rightarrow> effects w w' [(data, Inr ())] [] []
    | Inl (WriteError we) \<Rightarrow> effects w w' [(data, Inl we)] [] []
    | Inl (ConnectionError ce) \<Rightarrow> effects w w' [] [] []
    | Inl e \<Rightarrow> False"
proof -
  obtain x w1 where o: "q_open_uni (observed_quinn q) c w = (x, w1)" by (meson surj_pair)
  note e1 = observed_open_uni[OF o]
  show ?thesis
  proof (cases x)
    case (Inl ce)
    then show ?thesis using assms o e1 by (auto simp: send_buffer_using_conn_def)
  next
    case (Inr st)
    obtain y w2 where y: "q_write_all (observed_quinn q) st data w1 = (y, w2)" by (meson surj_pair)
    have "effects w w2 [(data, y)] [] []"
      using effects_trans[OF e1 observed_write_all[OF y]] by simp
    then show ?thesis
      using assms o y Inr by (cases y) (auto simp: send_buffer_using_conn_def)
  qed
qed

lemma get_endpoint_effects:
  assumes "get_endpoint (observed_quinn q) s = (r, s')"
  shows "effects (qs_world s) (qs_world s') [] [] []"
    and "qs_client s' = qs_client s"
  using assms
  by (auto simp: get_endpoint_def create_endpoint_def base_endpoint_def create_quinn_endpoint_def
      split: option.splits prod.splits outcome.splits if_splits
      dest!: observed_lifted intro!: effects_same_log)

lemma make_connection_effects:
  assumes "make_connection (observed_quinn q) addr stats s = (r, stats', s')"
  shows "\<exists>cs. effects (qs_world s) (qs_world s') [] [] cs \<and> length cs \<le> 1"
    and "successful_packets stats' = successful_packets stats"
    and "qs_client s' = qs_client s"
proof -
  obtain e s1 where g: "get_endpoint (observed_quinn q) s = (e, s1)" by (meson surj_pair)
  note e1 = get_endpoint_effects[OF g]
  show "qs_client s' = qs_client s" and "successful_packets stats' = successful_packets stats"
    using assms g e1(2)
    by (auto simp: make_connection_def Let_def split: outcome.splits prod.splits sum.splits option.splits)
  show "\<exists>cs. effects (qs_world s) (qs_world s') [] [] cs \<and> length cs \<le> 1"
  proof (cases e)
    case (Panic x)
    then show ?thesis
      using assms g e1(1) by (intro exI[of _ "[]"]) (simp add: make_connection_def)
  next
    case (Return ep)
    obtain y w2 where y: "q_connect (observed_quinn q) ep addr (qs_world s1) = (y, w2)" by (meson surj_pair)
    have e2: "effects (qs_world s) w2 [] [] [addr]"
      using effects_trans[OF e1(1) observed_connect[OF y]] by simp
    have "effects (qs_world s) (qs_world s') [] [] [addr]"
    proof (cases y)
      case (Inl x)
      then show ?thesis using assms g Return y e2 by (auto simp: make_connection_def)
    next
      case (Inr h)
      obtain z w3 where z: "q_handshake (observed_quinn q) INITIAL_QUIC_CONNECTION_HANDSHAKE_TIMEOUT h w2
          = (z, w3)" by (meson surj_pair)
      have "effects (qs_world s) w3 [] [] [addr]"
        using effects_trans[OF e2 effects_same_log[OF observed_lifted(3)[OF z]]] by simp
      then show ?thesis
        using assms g Return y Inr z
        by (auto simp: make_connection_def Let_def split: sum.splits option.splits)
    qed
    then show ?thesis by (intro exI[of _ "[addr]"]) simp
  qed
qed

lemma make_connection_0rtt_effects:
  assumes "make_connection_0rtt (observed_quinn q) nc addr stats w = (r, nc', stats', w')"
  shows "effects w w' [] [] [addr]" and "successful_packets stats' = successful_packets stats"
proof -
  obtain y w1 where y: "q_connect (observed_quinn q) (nc_endpoint nc) addr w = (y, w1)" by (meson surj_pair)
  note e1 = observed_connect[OF y]
  show "successful_packets stats' = successful_packets stats"
    using assms by (auto simp: make_connection_0rtt_def Let_def
        split: prod.splits sum.splits option.splits if_splits)
  have "snd w' = snd w1"
    using assms y
    by (auto simp: make_connection_0rtt_def Let_def
        split: prod.splits sum.splits option.splits dest!: observed_lifted)
  from effects_trans[OF e1 effects_same_log[OF this]] show "effects w w' [] [] [addr]" by simp
qed

lemma update_moving_stats_effects:
  "effects (qs_world s) (qs_world (update_moving_stats (observed_quinn q) c s)) [] [] []"
  by (rule effects_same_log)
     (auto simp: update_moving_stats_def Let_def split: prod.splits dest!: observed_lifted)

lemma update_moving_stats_client:
  "client_connection (qs_client (update_moving_stats q c s)) = client_connection (qs_client s)"
  "client_addr (qs_client (update_moving_stats q c s)) = client_addr (qs_client s)"
  by (simp_all add: update_moving_stats_def Let_def split: prod.split)

lemma acquire_connection_effects:
  assumes "acquire_connection (observed_quinn q) n last_id stats s = (r, stats', s')"
  shows "\<exists>cs. effects (qs_world s) (qs_world s') [] [] cs \<and> length cs \<le> 1
      \<and> (case r of Return (Inr (c, n')) \<Rightarrow> n + length cs \<le> n' | _ \<Rightarrow> True)"
    and "successful_packets stats' = successful_packets stats"
proof -
  let ?q = "observed_quinn q"
  have "(\<exists>cs. effects (qs_world s) (qs_world s') [] [] cs \<and> length cs \<le> 1
      \<and> (case r of Return (Inr (c, n')) \<Rightarrow> n + length cs \<le> n' | _ \<Rightarrow> True))
    \<and> successful_packets stats' = successful_packets stats"
  proof (cases "client_connection (qs_client s)")
    case None
    obtain x stats1 s1 where m: "make_connection ?q (client_addr (qs_client s)) stats s = (x, stats1, s1)"
      by (metis prod_cases3)
    obtain cs where cs: "effects (qs_world s) (qs_world s1) [] [] cs" "length cs \<le> 1"
      using make_connection_effects(1)[OF m] by blast
    have "qs_world s' = qs_world s1 \<and> stats' = stats1
        \<and> (case r of Return (Inr (c, n')) \<Rightarrow> n' = n + 1 | _ \<Rightarrow> True)"
      using assms m None by (auto simp: acquire_connection_def split: outcome.splits sum.splits)
    then show ?thesis
      using cs make_connection_effects(2)[OF m]
      by (intro conjI exI[of _ cs]) (auto split: outcome.splits sum.splits)
  next
    case (Some conn)
    show ?thesis
    proof (cases "stable_id (nc_connection conn) = last_id")
      case True
      obtain x nc stats1 w1 where m: "make_connection_0rtt ?q conn (client_addr (qs_client s)) stats
          (qs_world s) = (x, nc, stats1, w1)"
        by (metis prod_cases4)
      note e = make_connection_0rtt_effects[OF m]
      have "qs_world s' = w1 \<and> stats' = stats1
          \<and> (case r of Return (Inr (c, n')) \<Rightarrow> n' = n + 1 | _ \<Rightarrow> True)"
        using assms m Some True by (auto simp: acquire_connection_def Let_def split: sum.splits)
      then show ?thesis
        using e by (intro conjI exI[of _ "[client_addr (qs_client s)]"])
          (auto split: outcome.splits sum.splits)
    next
      case False
      then have "r = Return (Inr (nc_connection conn, n)) \<and> s' = s
          \<and> successful_packets stats' = successful_packets stats"
        using assms Some by (auto simp: acquire_connection_def)
      then show ?thesis by (intro conjI exI[of _ "[]"]) auto
    qed
  qed
  then show "\<exists>cs. effects (qs_world s) (qs_world s') [] [] cs \<and> length cs \<le> 1
      \<and> (case r of Return (Inr (c, n')) \<Rightarrow> n + length cs \<le> n' | _ \<Rightarrow> True)"
    and "successful_packets stats' = successful_packets stats" by blast+
qed

lemma make_connection_error_kind:
  assumes "make_connection q addr stats s = (Return (Inl err), stats', s')"
  shows "\<exists>x. err = ConnectError x \<or> (\<exists>ce. err = ConnectionError ce)"
  using assms
  by (auto simp: make_connection_def Let_def split: outcome.splits prod.splits sum.splits option.splits)

lemma make_connection_0rtt_error_kind:
  assumes "make_connection_0rtt q nc addr stats w = (Inl err, nc', stats', w')"
  shows "\<exists>x. err = ConnectError x \<or> (\<exists>ce. err = ConnectionError ce)"
  using assms
  by (auto simp: make_connection_0rtt_def Let_def split: prod.splits sum.splits option.splits if_splits)

lemma acquire_error_kind:
  assumes "acquire_connection q n last_id stats s = (Return (Inl err), stats', s')"
  shows "\<exists>x. err = ConnectError x \<or> (\<exists>ce. err = ConnectionError ce)"
  using assms
  by (auto simp: acquire_connection_def Let_def
      split: option.splits prod.splits outcome.splits sum.splits if_splits
      dest: make_connection_error_kind make_connection_0rtt_error_kind)

lemma acquire_try_count:
  assumes "acquire_connection q n last_id stats s = (Return (Inr (c, n')), stats', s')"
  shows "n' \<le> n + 1"
  using assms
  by (auto simp: acquire_connection_def Let_def
      split: option.splits prod.splits outcome.splits sum.splits if_splits)

lemma acquire_try_count_mono:
  assumes "acquire_connection q n last_id stats s = (Return (Inr (c, n')), stats', s')"
  shows "n \<le> n'"
  using assms
  by (auto simp: acquire_connection_def Let_def
      split: option.splits prod.splits outcome.splits sum.splits if_splits)

text \<open>What a send that returned \<open>r\<close> may have written of its data.\<close>

definition writes_match :: "bytes \<Rightarrow> quic_error + 'c \<Rightarrow> (bytes \<times> (write_error + unit)) list \<Rightarrow> bool" where
  "writes_match data r ws \<longleftrightarrow>
     (case r of
        Inr c \<Rightarrow> ws = (if data = [] then [] else [(data, Inr ())])
      | Inl (WriteError we) \<Rightarrow> data \<noteq> [] \<and> ws = [(data, Inl we)]
      | Inl e \<Rightarrow> ws = [])"

definition packet_count :: "bytes \<Rightarrow> 'e + 'c \<Rightarrow> u64" where
  "packet_count data r = (case r of Inr c \<Rightarrow> (if data = [] then 0 else 1) | Inl e \<Rightarrow> 0)"

lemma send_on_connection_effects:
  assumes "send_on_connection (observed_quinn q) data start c stats s = (r, stats', s')"
  shows "\<exists>ws. effects (qs_world s) (qs_world s') ws [] [] \<and> writes_match data r ws"
    and "successful_packets stats' = successful_packets stats + packet_count data r"
proof -
  let ?q = "observed_quinn q"
  let ?s1 = "update_moving_stats ?q c s"
  note e1 = update_moving_stats_effects[of s q c]
  obtain z w2 where z: "send_buffer_using_conn ?q data c (qs_world ?s1) = (z, w2)" by (meson surj_pair)
  note zs = send_buffer_using_conn_effects[OF z]
  show "successful_packets stats' = successful_packets stats + packet_count data r"
    using assms z by (auto simp: send_on_connection_def Let_def packet_count_def split: if_splits sum.splits)
  show "\<exists>ws. effects (qs_world s) (qs_world s') ws [] [] \<and> writes_match data r ws"
  proof (cases "data = []")
    case True
    then have "r = Inr () \<and> s' = ?s1" using assms by (simp add: send_on_connection_def)
    then show ?thesis using e1 True by (intro exI[of _ "[]"]) (simp add: writes_match_def)
  next
    case False
    then have r: "r = z" "qs_world s' = w2"
      using assms z by (auto simp: send_on_connection_def Let_def split: sum.splits)
    obtain ws where "effects (qs_world ?s1) w2 ws [] []" "writes_match data z ws"
      using zs False by (auto simp: writes_match_def split: sum.splits quic_error.splits)
    then show ?thesis using effects_trans[OF e1] r by fastforce
  qed
qed

text \<open>One turn of the loop, by how it ends.\<close>

lemma send_loop_turnE:
  assumes "send_buffer_loop fuel q data start n last_id le stats s = Some (r, stats', s')"
  obtains
    (exhausted) "2 \<le> n" "r = (case le of None \<Rightarrow> Panic UnwrapFailed | Some e \<Rightarrow> Return (Inl e))"
      "stats' = stats" "s' = s"
  | (no_endpoint) e where "n < 2"
      "acquire_connection q n last_id stats (q_lock q s) = (Panic e, stats', s')" "r = Panic e"
  | (no_connection) err where "n < 2"
      "acquire_connection q n last_id stats (q_lock q s) = (Return (Inl err), stats', s')"
      "r = Return (Inl err)"
  | (finished) c n1 stats1 s1 z where "n < 2"
      "acquire_connection q n last_id stats (q_lock q s) = (Return (Inr (c, n1)), stats1, s1)"
      "send_on_connection q data start c stats1 s1 = (z, stats', s')"
      "\<And>ce. z \<noteq> Inl (ConnectionError ce)"
      "r = Return (case z of Inr u \<Rightarrow> Inr c | Inl e \<Rightarrow> Inl e)"
  | (again) fuel1 c n1 stats1 s1 ce stats2 s2 where "n < 2" "fuel = Suc fuel1"
      "acquire_connection q n last_id stats (q_lock q s) = (Return (Inr (c, n1)), stats1, s1)"
      "send_on_connection q data start c stats1 s1 = (Inl (ConnectionError ce), stats2, s2)"
      "send_buffer_loop fuel1 q data start n1 (stable_id c) (Some (ConnectionError ce)) stats2 s2
         = Some (r, stats', s')"
proof (cases fuel)
  case 0
  then show thesis using assms by simp
next
  case (Suc fuel1)
  show thesis
  proof (cases "n < 2")
    case False
    then show thesis using assms Suc exhausted by (auto split: option.splits)
  next
    case True
    then show thesis
      using assms Suc no_endpoint no_connection finished again
      by (auto split: prod.splits outcome.splits sum.splits quic_error.splits)
  qed
qed

lemma send_buffer_loop_effects:
  assumes "send_buffer_loop fuel (observed_quinn q) data start n last_id le stats s = Some (Return r, stats', s')"
    and "n \<le> 2" and "\<And>e. le = Some e \<Longrightarrow> \<exists>ce. e = ConnectionError ce"
  shows "\<exists>ws cs. effects (qs_world s) (qs_world s') ws [] cs \<and> n + length cs \<le> 2
    \<and> writes_match data r ws
    \<and> successful_packets stats' = successful_packets stats + packet_count data r"
  using assms
proof (induction fuel arbitrary: n last_id le stats s)
  case 0
  then show ?case by simp
next
  case (Suc fuel)
  let ?q = "observed_quinn q"
  have acquired: "\<exists>cs. effects (qs_world s) (qs_world s1) [] [] cs \<and> length cs \<le> 1
      \<and> (case y of Inr (c, n') \<Rightarrow> n + length cs \<le> n' | _ \<Rightarrow> True)
      \<and> successful_packets stats1 = successful_packets stats"
    if a: "acquire_connection ?q n last_id stats (q_lock ?q s) = (Return y, stats1, s1)" for y stats1 s1
    using effects_trans[OF effects_same_log[OF observed_lock]] acquire_connection_effects[OF a] by fastforce
  from Suc.prems(1) show ?case
  proof (cases rule: send_loop_turnE)
    case exhausted
    then obtain ce where "r = Inl (ConnectionError ce)"
      using Suc.prems(3) by (auto split: option.splits)
    then show ?thesis
      using exhausted Suc.prems(2) by (intro exI[of _ "[]"]) (simp add: writes_match_def packet_count_def)
  next
    case (no_connection err)
    moreover have "writes_match data (Inl err) []"
      using acquire_error_kind[OF no_connection(2)] by (auto simp: writes_match_def)
    moreover obtain cs where "effects (qs_world s) (qs_world s') [] [] cs" "length cs \<le> 1"
        "successful_packets stats' = successful_packets stats"
      using acquired[OF no_connection(2)] by auto
    ultimately show ?thesis
      using no_connection(1) by (intro exI[of _ "[]"] exI[of _ cs]) (auto simp: packet_count_def)
  next
    case (finished c n1 stats1 s1 z)
    obtain cs where cs: "effects (qs_world s) (qs_world s1) [] [] cs" "n + length cs \<le> n1"
        "successful_packets stats1 = successful_packets stats"
      using acquired[OF finished(2)] by auto
    obtain ws where "effects (qs_world s1) (qs_world s') ws [] []" "writes_match data z ws"
        "successful_packets stats' = successful_packets stats1 + packet_count data z"
      using send_on_connection_effects[OF finished(3)] by blast
    moreover have "writes_match data r ws \<longleftrightarrow> writes_match data z ws" "packet_count data r = packet_count data z"
      using finished(5) by (auto simp: writes_match_def packet_count_def split: sum.splits)
    moreover have "n1 \<le> 2" using acquire_try_count[OF finished(2)] finished(1) by simp
    ultimately show ?thesis
      using effects_trans[OF cs(1)] cs(2,3) by (intro exI[of _ ws] exI[of _ cs]) fastforce
  next
    case (again fuel1 c n1 stats1 s1 ce stats2 s2)
    obtain cs where cs: "effects (qs_world s) (qs_world s1) [] [] cs" "n + length cs \<le> n1"
        "successful_packets stats1 = successful_packets stats"
      using acquired[OF again(3)] by auto
    have "n1 \<le> 2" using acquire_try_count[OF again(3)] again(1) by simp
    then obtain ws' cs' where r: "effects (qs_world s2) (qs_world s') ws' [] cs'" "n1 + length cs' \<le> 2"
        "writes_match data r ws'"
        "successful_packets stats' = successful_packets stats2 + packet_count data r"
      using Suc.IH[of n1 "stable_id c" "Some (ConnectionError ce)" stats2 s2] again(2,5) by auto
    have "effects (qs_world s1) (qs_world s2) [] [] []" "successful_packets stats2 = successful_packets stats1"
      using send_on_connection_effects[OF again(4)] by (auto simp: writes_match_def packet_count_def)
    from effects_trans[OF effects_trans[OF cs(1) this(1)] r(1)] this(2) show ?thesis
      using cs(2,3) r by (intro exI[of _ ws'] exI[of _ "cs @ cs'"]) simp
  qed simp
qed

section \<open>Termination\<close>

text \<open>No other task uses the client while this one waits for its mutex.\<close>

definition undisturbed :: "'w quinn \<Rightarrow> bool" where
  "undisturbed q \<longleftrightarrow> q_lock q = (\<lambda>s. s)"

lemma undisturbed_observed: "undisturbed q \<Longrightarrow> undisturbed (observed_quinn q)"
  by (simp add: undisturbed_def observed_quinn_def fun_eq_iff)

lemma acquire_stores:
  assumes "acquire_connection q n last_id stats s = (Return (Inr (c, n')), stats', s')"
  shows "\<exists>nc. client_connection (qs_client s') = Some nc \<and> nc_connection nc = c"
    and "n' = n \<Longrightarrow> stable_id c \<noteq> last_id"
    and "(\<exists>nc. client_connection (qs_client s) = Some nc \<and> stable_id (nc_connection nc) = last_id)
           \<Longrightarrow> n' = n + 1"
  using assms
  by (auto simp: acquire_connection_def make_connection_0rtt_def Let_def
      split: option.splits prod.splits outcome.splits sum.splits if_splits)

lemma send_on_connection_keeps:
  assumes "send_on_connection q data start c stats s = (r, stats', s')"
  shows "client_connection (qs_client s') = client_connection (qs_client s)"
  using assms
  by (auto simp: send_on_connection_def Let_def update_moving_stats_client
      split: if_splits prod.splits sum.splits)

text \<open>
  Bounded interference: \<open>left s\<close> bounds how often other tasks will still replace the connection
  while this send waits for the mutex. The steps of the send itself do not raise it.
\<close>

definition calm :: "'w quinn \<Rightarrow> ('w quic_state \<Rightarrow> nat) \<Rightarrow> bool" where
  "calm q left \<longleftrightarrow>
     (\<forall>s. left (q_lock q s) \<le> left s
        \<and> (client_connection (qs_client (q_lock q s)) \<noteq> client_connection (qs_client s)
             \<longrightarrow> left (q_lock q s) < left s))
     \<and> (\<forall>n id st s y st' s'. acquire_connection q n id st s = (y, st', s') \<longrightarrow> left s' \<le> left s)
     \<and> (\<forall>d t c st s r st' s'. send_on_connection q d t c st s = (r, st', s') \<longrightarrow> left s' \<le> left s)"

lemma undisturbed_calm: "undisturbed q \<Longrightarrow> calm q (\<lambda>s. 0)"
  by (simp add: undisturbed_def calm_def)

lemma calm_turn:
  assumes "calm q left"
    and "acquire_connection q n last_id stats (q_lock q s) = (Return (Inr (c, n1)), stats1, s1)"
    and "send_on_connection q data start c stats1 s1 = (r, stats2, s2)"
  shows "left s2 \<le> left s"
    and "\<exists>nc. client_connection (qs_client s2) = Some nc \<and> nc_connection nc = c"
    and "(\<exists>nc. client_connection (qs_client s) = Some nc \<and> stable_id (nc_connection nc) = last_id)
      \<Longrightarrow> n1 = n + 1 \<or> left s2 < left s"
proof -
  have l: "left (q_lock q s) \<le> left s" "left s1 \<le> left (q_lock q s)" "left s2 \<le> left s1"
    using assms(2,3) assms(1)[unfolded calm_def] by blast+
  show "left s2 \<le> left s" using l by simp
  show "\<exists>nc. client_connection (qs_client s2) = Some nc \<and> nc_connection nc = c"
    using acquire_stores(1)[OF assms(2)] send_on_connection_keeps[OF assms(3)] by simp
  show "n1 = n + 1 \<or> left s2 < left s"
    if p: "\<exists>nc. client_connection (qs_client s) = Some nc \<and> stable_id (nc_connection nc) = last_id"
  proof (cases "client_connection (qs_client (q_lock q s)) = client_connection (qs_client s)")
    case True
    then show ?thesis using acquire_stores(3)[OF assms(2)] p by simp
  next
    case False
    then have "left (q_lock q s) < left s" using assms(1) by (simp add: calm_def)
    then show ?thesis using l by simp
  qed
qed

lemma loop_after_failure_returns:
  assumes "calm q left" and "n \<le> 2" and "3 - n + left s \<le> fuel"
    and "\<exists>nc. client_connection (qs_client s) = Some nc \<and> stable_id (nc_connection nc) = last_id"
  shows "send_buffer_loop fuel q data start n last_id le stats s \<noteq> None"
  using assms(2-)
proof (induction fuel arbitrary: n last_id le stats s)
  case 0
  then show ?case by simp
next
  case (Suc fuel)
  have again: "send_buffer_loop fuel q data start n1 (stable_id c) (Some e) stats2 s2 \<noteq> None"
    if a: "n < 2" "acquire_connection q n last_id stats (q_lock q s) = (Return (Inr (c, n1)), stats1, s1)"
      and b: "send_on_connection q data start c stats1 s1 = (r, stats2, s2)" for c n1 e r stats1 s1 stats2 s2
  proof -
    note t = calm_turn[OF assms(1) a(2) b]
    have "n1 = n + 1 \<or> (n \<le> n1 \<and> left s2 < left s)"
      using t(3)[OF Suc.prems(3)] acquire_try_count_mono[OF a(2)] by blast
    moreover have "n1 \<le> 2" using acquire_try_count[OF a(2)] a(1) by simp
    ultimately show ?thesis
      by (intro Suc.IH) (use a(1) t(1,2) Suc.prems(2) in auto)
  qed
  show ?case
    using again by (auto split: outcome.split prod.split sum.split quic_error.split)
qed

lemma send_buffer_loop_returns_calm:
  assumes "calm q left"
  shows "send_buffer_loop (4 + left s) q data start 0 last_id le stats s \<noteq> None"
proof -
  have again: "send_buffer_loop (3 + left s) q data start n1 (stable_id c) (Some e) stats2 s2 \<noteq> None"
    if a: "acquire_connection q 0 last_id stats (q_lock q s) = (Return (Inr (c, n1)), stats1, s1)"
      and b: "send_on_connection q data start c stats1 s1 = (r, stats2, s2)" for c n1 e r stats1 s1 stats2 s2
    by (rule loop_after_failure_returns[OF assms])
       (use acquire_try_count[OF a] calm_turn(1,2)[OF assms a b] in auto)
  have f: "4 + left s = Suc (3 + left s)" by simp
  show ?thesis
    unfolding f send_buffer_loop.simps
    using again by (auto split: outcome.split prod.split sum.split quic_error.split)
qed

lemma send_buffer_loop_returns:
  assumes "undisturbed q"
  shows "send_buffer_loop 4 q data start 0 last_id le stats s \<noteq> None"
  using send_buffer_loop_returns_calm[OF undisturbed_calm[OF assms]] by simp

section \<open>Panic freedom\<close>

definition endpoint_creatable :: "'w quinn \<Rightarrow> bool" where
  "endpoint_creatable q \<longleftrightarrow> (\<forall>le w. \<exists>ep w'. create_endpoint q le w = (Return ep, w'))"

lemma make_connection_no_panic:
  assumes "endpoint_creatable q" and "make_connection q addr stats s = (r, stats', s')"
  shows "\<exists>x. r = Return x"
proof -
  obtain ep0 w1 where "create_endpoint q (qs_endpoint s) (qs_world s) = (Return ep0, w1)"
    using assms(1) unfolding endpoint_creatable_def by blast
  then obtain ep s1 where "get_endpoint q s = (Return ep, s1)"
    by (cases "endpoint_cell (qs_endpoint s)") (simp_all add: get_endpoint_def)
  then show ?thesis
    using assms(2)
    by (auto simp: make_connection_def Let_def split: prod.splits sum.splits option.splits)
qed

lemma acquire_no_panic:
  assumes "endpoint_creatable q" and "acquire_connection q n last_id stats s = (r, stats', s')"
  shows "\<exists>x. r = Return x"
proof (cases "client_connection (qs_client s)")
  case None
  obtain y stats1 s1 where m: "make_connection q (client_addr (qs_client s)) stats s = (y, stats1, s1)"
    by (metis prod_cases3)
  obtain x where "y = Return x" using make_connection_no_panic[OF assms(1) m] by blast
  then show ?thesis using assms(2) m None by (auto simp: acquire_connection_def split: sum.splits)
next
  case (Some nc)
  then show ?thesis
    using assms(2) by (auto simp: acquire_connection_def Let_def split: if_splits prod.splits sum.splits)
qed

lemma send_buffer_loop_no_panic:
  assumes "endpoint_creatable q" and "2 \<le> n \<longrightarrow> le \<noteq> None"
    and "send_buffer_loop fuel q data start n last_id le stats s = Some (r, stats', s')"
  shows "\<exists>x. r = Return x"
  using assms(2,3)
proof (induction fuel arbitrary: n last_id le stats s)
  case 0
  then show ?case by simp
next
  case (Suc fuel)
  from Suc.prems(2) show ?case
  proof (cases rule: send_loop_turnE)
    case (no_endpoint e)
    then show ?thesis using acquire_no_panic[OF assms(1) no_endpoint(2)] by simp
  next
    case (again fuel1 c n1 stats1 s1 ce stats2 s2)
    then show ?thesis using Suc.IH[of n1 "Some (ConnectionError ce)"] by simp
  qed (use Suc.prems(1) in auto)
qed

section \<open>Batches and reports\<close>

text \<open>The buffers of a batch that are really written: an empty first buffer only warms the connection.\<close>

definition batch_todo :: "bytes list \<Rightarrow> bytes list" where
  "batch_todo buffers = (case buffers of [] \<Rightarrow> [] | first # rest \<Rightarrow> if first = [] then rest else buffers)"

definition batch_writes_match ::
  "bytes list \<Rightarrow> 'e + unit \<Rightarrow> (bytes \<times> (write_error + unit)) list \<Rightarrow> bool" where
  "batch_writes_match todo r ws \<longleftrightarrow>
     (\<exists>n tail. ws = map (\<lambda>d. (d, Inr ())) (take n todo) @ tail \<and> n \<le> length todo
       \<and> (case r of
            Inr u \<Rightarrow> n = length todo \<and> tail = []
          | Inl e \<Rightarrow> tail = [] \<or> (n < length todo \<and> (\<exists>we. tail = [(todo ! n, Inl we)]))))"

lemma batch_writes_match_Cons:
  assumes "batch_writes_match todo r ws"
  shows "batch_writes_match (d # todo) r ((d, Inr ()) # ws)"
proof -
  obtain n tail where "ws = map (\<lambda>d. (d, Inr ())) (take n todo) @ tail" "n \<le> length todo"
    "case r of Inr u \<Rightarrow> n = length todo \<and> tail = []
      | Inl e \<Rightarrow> tail = [] \<or> (n < length todo \<and> (\<exists>we. tail = [(todo ! n, Inl we)]))"
    using assms by (auto simp: batch_writes_match_def)
  then show ?thesis
    unfolding batch_writes_match_def
    by (intro exI[of _ "Suc n"] exI[of _ tail]) (auto split: sum.splits)
qed

lemma batch_writes_match_fail:
  "batch_writes_match todo (Inl e) []"
  "batch_writes_match (d # todo) (Inl e) [(d, Inl we)]"
  by (auto simp: batch_writes_match_def intro!: exI[of _ "0 :: nat"])

lemma send_rest_effects:
  assumes "send_rest (observed_quinn q) debug c rest w = (r, w')"
  shows "\<exists>ws. effects w w' ws [] [] \<and> batch_writes_match rest r ws"
  using assms
proof (induction rest arbitrary: w)
  case Nil
  then show ?case by (auto simp: batch_writes_match_def intro!: exI[of _ "[]"])
next
  case (Cons d rest)
  obtain z w1 where z: "send_buffer_using_conn (observed_quinn q) d c w = (z, w1)" by (meson surj_pair)
  note e = send_buffer_using_conn_effects[OF z]
  show ?case
  proof (cases z)
    case (Inr u)
    then have "send_rest (observed_quinn q) debug c rest w1 = (r, w')" using Cons.prems z by simp
    from Cons.IH[OF this] obtain ws where "effects w1 w' ws [] []" "batch_writes_match rest r ws" by blast
    then show ?thesis
      using effects_trans[of w w1 "[(d, Inr ())]" "[]" "[]" w' ws "[]" "[]"] e Inr batch_writes_match_Cons
      by (intro exI[of _ "(d, Inr ()) # ws"]) simp
  next
    case (Inl err)
    then have "r = Inl (client_kind_of debug err)" "w' = w1" using Cons.prems z by auto
    then show ?thesis
      using e Inl by (auto split: quic_error.splits intro: batch_writes_match_fail)
  qed
qed

lemma send_batch_effects:
  assumes "send_batch fuel (observed_quinn q) debug buffers stats s = Some (Return r, stats', s')"
  shows "\<exists>ws cs. effects (qs_world s) (qs_world s') ws [] cs \<and> length cs \<le> 2
    \<and> batch_writes_match (batch_todo buffers) r ws"
proof (cases buffers)
  case Nil
  then show ?thesis
    using assms by (intro exI[of _ "[]"]) (auto simp: send_batch_def batch_writes_match_def batch_todo_def)
next
  case (Cons first rest)
  obtain x stats1 s1 where b: "send_buffer0 fuel (observed_quinn q) first stats s = Some (Return x, stats1, s1)"
    using assms Cons by (auto simp: send_batch_def split: option.splits outcome.splits)
  from send_buffer_loop_effects[OF b[unfolded send_buffer0_def]] obtain ws cs where
      w: "effects (qs_world s) (qs_world s1) ws [] cs" "length cs \<le> 2" "writes_match first x ws" by auto
  show ?thesis
  proof (cases x)
    case (Inl err)
    then have "r = Inl (client_kind_of debug err)" "s' = s1"
      using assms b Cons by (auto simp: send_batch_def)
    moreover have "batch_writes_match (batch_todo buffers) (Inl k) ws" for k :: client_error_kind
      using w(3) Inl Cons batch_writes_match_fail
      by (auto simp: writes_match_def batch_todo_def split: quic_error.splits)
    ultimately show ?thesis using w by blast
  next
    case (Inr c)
    obtain w2 where r: "send_rest (observed_quinn q) debug c rest (qs_world s1) = (r, w2)" "qs_world s' = w2"
      using assms b Cons Inr by (auto simp: send_batch_def Let_def split: prod.splits)
    from send_rest_effects[OF r(1)] obtain ws' where
        ws': "effects (qs_world s1) w2 ws' [] []" "batch_writes_match rest r ws'" by blast
    have "batch_writes_match (batch_todo buffers) r (ws @ ws')"
      using w(3) Inr Cons ws'(2) batch_writes_match_Cons by (auto simp: writes_match_def batch_todo_def)
    then show ?thesis
      using effects_trans[OF w(1) ws'(1)] w(2) r(2) by (intro exI[of _ "ws @ ws'"] exI[of _ cs]) simp
  qed
qed

lemma send_data_effects:
  assumes "send_data fuel (observed_quinn q) debug conv data s = Some (Return r, s')"
  shows "\<exists>ws cs. effects (qs_world s) (qs_world s') ws
        [(packet_count data r, (if data = [] then 0 else 1), r = Inr ())] cs
    \<and> length cs \<le> 2
    \<and> (if r = Inr () then ws = (if data = [] then [] else [(data, Inr ())])
       else ws = [] \<or> (data \<noteq> [] \<and> (\<exists>we. ws = [(data, Inl we)])))"
proof -
  obtain x stats s1 where b: "send_buffer0 fuel (observed_quinn q) data default_client_stats s
      = Some (Return x, stats, s1)"
    using assms by (auto simp: send_data_def send_buffer_def Let_def split: option.splits outcome.splits)
  from send_buffer_loop_effects[OF b[unfolded send_buffer0_def]] obtain ws cs where
      w: "effects (qs_world s) (qs_world s1) ws [] cs" "length cs \<le> 2" "writes_match data x ws"
        "successful_packets stats = packet_count data x"
    by (auto simp: default_client_stats_def)
  let ?n = "if data = [] then 0 else 1 :: nat"
  have r: "qs_world s' = q_add_client_stats (observed_quinn q) stats ?n (r = Inr ()) (qs_world s1)"
    and rx: "r = Inr () \<longleftrightarrow> (\<exists>c. x = Inr c)"
    using assms b by (auto simp: send_data_def send_buffer_def Let_def split: sum.splits)
  have p: "packet_count data r = packet_count data x"
    using rx by (auto simp: packet_count_def split: sum.splits)
  have "effects (qs_world s) (qs_world s') ws [(packet_count data r, ?n, r = Inr ())] cs"
    using effects_trans[OF w(1) observed_report[of "qs_world s1" q stats ?n "r = Inr ()"]] r w(4) p by simp
  moreover have "if r = Inr () then ws = (if data = [] then [] else [(data, Inr ())])
       else ws = [] \<or> (data \<noteq> [] \<and> (\<exists>we. ws = [(data, Inl we)]))"
    using w(3) rx by (auto simp: writes_match_def split: sum.splits quic_error.splits)
  ultimately show ?thesis using w(2) by (intro exI[of _ ws] exI[of _ cs]) simp
qed

lemma send_data_batch_effects:
  assumes "send_data_batch fuel (observed_quinn q) debug conv buffers s = Some (Return r, s')"
  shows "\<exists>ws n cs. effects (qs_world s) (qs_world s') ws [(n, length buffers, r = Inr ())] cs
    \<and> length cs \<le> 2 \<and> batch_writes_match (batch_todo buffers) r ws"
proof -
  obtain x stats s1 where b: "send_batch fuel (observed_quinn q) debug buffers default_client_stats s
      = Some (Return x, stats, s1)"
    using assms by (auto simp: send_data_batch_def split: option.splits outcome.splits)
  from send_batch_effects[OF b] obtain ws cs where
      w: "effects (qs_world s) (qs_world s1) ws [] cs" "length cs \<le> 2"
         "batch_writes_match (batch_todo buffers) x ws" by blast
  have r: "qs_world s' = q_add_client_stats (observed_quinn q) stats (length buffers) (r = Inr ()) (qs_world s1)"
    and rx: "r = (case x of Inr u \<Rightarrow> Inr () | Inl e \<Rightarrow> Inl (conv e))"
    using assms b by (auto simp: send_data_batch_def split: sum.splits)
  have "batch_writes_match (batch_todo buffers) r ws"
    using w(3) rx by (auto simp: batch_writes_match_def split: sum.splits)
  then show ?thesis
    using effects_trans[OF w(1) observed_report[of "qs_world s1" q stats "length buffers" "r = Inr ()"]]
      r w(2) by (intro exI[of _ ws] exI[of _ "successful_packets stats"] exI[of _ cs]) simp
qed

section \<open>The contract of a packet sender\<close>

text \<open>
  What the layers above rely on: a send that returns success has handed exactly its data to the
  network, once; one that returns an error may have handed it over at most once, with an error.
\<close>

locale packet_sender =
  fixes deliver :: "bytes \<Rightarrow> 's \<Rightarrow> (send_result outcome \<times> 's) option"
    and sent :: "'s \<Rightarrow> (bytes \<times> (write_error + unit)) list"
  assumes deliver_ok: "deliver d s = Some (Return (Inr ()), s') \<Longrightarrow>
      sent s' = sent s @ (if d = [] then [] else [(d, Inr ())])"
    and deliver_err: "deliver d s = Some (Return (Inl e), s') \<Longrightarrow>
      sent s' = sent s \<or> (d \<noteq> [] \<and> (\<exists>we. sent s' = sent s @ [(d, Inl we)]))"
begin

lemma deliver_cases:
  assumes "deliver d s = Some (Return r, s')"
  obtains "sent s' = sent s" | x where "d \<noteq> []" "sent s' = sent s @ [(d, x)]" "r = Inr () \<longleftrightarrow> x = Inr ()"
  using assms deliver_ok[of d s s'] deliver_err[of d s _ s'] by (cases r) (auto split: if_splits)

lemma deliver_extends: "deliver d s = Some (Return r, s') \<Longrightarrow> set (sent s) \<subseteq> set (sent s')"
  by (erule deliver_cases) auto

lemma deliver_empty: "deliver [] s = Some (Return r, s') \<Longrightarrow> sent s' = sent s"
  by (erule deliver_cases) auto

lemma success_is_written: "deliver d s = Some (Return (Inr ()), s') \<Longrightarrow> d \<noteq> [] \<Longrightarrow> (d, Inr ()) \<in> set (sent s')"
  using deliver_ok by fastforce

end

interpretation quic_sender: packet_sender "send_data fuel (observed_quinn q) debug conv"
    "\<lambda>s. written (qs_world s)" for fuel q debug conv
proof unfold_locales
  show "written (qs_world s') = written (qs_world s) @ (if d = [] then [] else [(d, Inr ())])"
    if "send_data fuel (observed_quinn q) debug conv d s = Some (Return (Inr ()), s')" for d s s'
    using send_data_effects[OF that] by (auto simp: effects_def)
  show "written (qs_world s') = written (qs_world s)
      \<or> (d \<noteq> [] \<and> (\<exists>we. written (qs_world s') = written (qs_world s) @ [(d, Inl we)]))"
    if "send_data fuel (observed_quinn q) debug conv d s = Some (Return (Inl e), s')" for d s e s'
    using send_data_effects[OF that] by (auto simp: effects_def)
qed

section \<open>Properties\<close>

text \<open>
  C3: A send hands its data to the network at most once, however often it reconnects and whatever
  other tasks do to the shared connection: it is written exactly once, successfully, when the send
  returns a connection; written once with the reported error when a write failed, which is never
  retried; and not written at all on any other error or when it is empty. At most two connection
  attempts are made.
\<close>
theorem send_writes_at_most_once:
  assumes "send_buffer0 fuel (observed_quinn q) data stats s = Some (Return r, stats', s')"
  shows "\<exists>ws cs. written (qs_world s') = written (qs_world s) @ ws
    \<and> connects (qs_world s') = connects (qs_world s) @ cs \<and> length cs \<le> 2
    \<and> (case r of
         Inr c \<Rightarrow> ws = (if data = [] then [] else [(data, Inr ())])
       | Inl (WriteError we) \<Rightarrow> data \<noteq> [] \<and> ws = [(data, Inl we)]
       | Inl e \<Rightarrow> ws = [])"
proof -
  obtain ws cs where "effects (qs_world s) (qs_world s') ws [] cs" "0 + length cs \<le> 2"
      "writes_match data r ws"
    using send_buffer_loop_effects[OF assms[unfolded send_buffer0_def]] by auto
  then show ?thesis
    unfolding effects_def writes_match_def by (intro exI[of _ ws] exI[of _ cs]) simp
qed

text \<open>
  C11: A send always returns when other tasks replace the shared connection only finitely often: if
  at most \<open>left s\<close> replacements are to come, \<open>4 + left s\<close> turns of its loop are enough, and it has
  not panicked as long as the endpoint can be created. Without interference, four turns are enough.
\<close>
theorem send_returns_with_bounded_interference:
  assumes "calm q left" and "endpoint_creatable q"
  shows "\<exists>r stats' s'. send_buffer0 (4 + left s) q data stats s = Some (Return r, stats', s')"
proof -
  obtain r stats' s' where "send_buffer0 (4 + left s) q data stats s = Some (r, stats', s')"
    using send_buffer_loop_returns_calm[OF assms(1)] unfolding send_buffer0_def by fastforce
  then show ?thesis
    using send_buffer_loop_no_panic[OF assms(2)] unfolding send_buffer0_def by fastforce
qed

text \<open>
  C35: The \<open>expect\<close> after the loop never fires: with any interference, a send that returns has not
  panicked, as long as the endpoint can be created.
\<close>
theorem send_never_panics:
  assumes "endpoint_creatable q" and "send_buffer0 fuel q data stats s = Some (r, stats', s')"
  shows "\<exists>x. r = Return x"
  using send_buffer_loop_no_panic[OF assms(1)] assms(2) unfolding send_buffer0_def by fastforce

definition sample_quinn :: "nat quinn" where
  "sample_quinn =
     \<lparr>q_bind_in_range = (\<lambda>w. (Some 8000, w)), q_new_endpoint = (\<lambda>sock w. (Some sock, w)),
      q_client_auth_ok = (\<lambda>c. True), q_initial_cipher_ok = True, q_alpn_tpu = [1], q_keep_alive_ms = 1000,
      q_connect = (\<lambda>ep a w. (Inr w, Suc w)),
      q_handshake = (\<lambda>t h w. (Some (Inr \<lparr>stable_id = of_nat h + 1, conn_handle = h\<rparr>), w)),
      q_into_0rtt = (\<lambda>h w. (Inl h, w)), q_zero_rtt_accepted = (\<lambda>t c w. (Some True, w)),
      q_open_uni = (\<lambda>c w. (Inr 0, w)), q_write_all = (\<lambda>st d w. (Inr (), w)),
      q_path_stats = (\<lambda>c w. \<lparr>congestion_events = 0, streams_blocked_uni = 0, data_blocked = 0, acks = 1\<rparr>),
      q_update_stat = (\<lambda>m old new w. (new, w)), q_add_client_stats = (\<lambda>st n ok w. w),
      q_now_ns = (\<lambda>w. w), q_lock = (\<lambda>s. s)\<rparr>"

definition sample_state :: "(nat \<times> quic_event list) quic_state" where
  "sample_state = \<lparr>qs_endpoint = new_lazy_endpoint \<lparr>certificate = [7], private_key = [8]\<rparr> None,
     qs_client = new_quic_client (SocketV4 1 8009), qs_world = (0, [])\<rparr>"

lemma sample_quinn_ok:
  "undisturbed sample_quinn" "endpoint_creatable sample_quinn"
  "undisturbed (observed_quinn sample_quinn)" "endpoint_creatable (observed_quinn sample_quinn)"
  by (auto simp: undisturbed_def endpoint_creatable_def sample_quinn_def observed_quinn_def
      create_endpoint_def base_endpoint_def create_quinn_endpoint_def lifted_def fun_eq_iff
      split: option.split)

text \<open>A busy world: other tasks replace the connection until the world's counter is down to zero.\<close>

definition busy_quinn :: "nat quinn" where
  "busy_quinn = sample_quinn\<lparr>
     q_connect := (\<lambda>ep a w. (Inr w, w)), q_open_uni := (\<lambda>c w. (Inl TimedOut, w)),
     q_lock := (\<lambda>s. if qs_world s = 0 then s
       else s\<lparr>qs_world := qs_world s - 1, qs_client := (qs_client s)\<lparr>client_connection :=
          Some \<lparr>nc_endpoint = \<lparr>ep_handle = 1, default_client_config = None\<rparr>,
                nc_connection = \<lparr>stable_id = of_nat (qs_world s), conn_handle = 0\<rparr>\<rparr>\<rparr>\<rparr>)\<rparr>"

definition busy_state :: "nat quic_state" where
  "busy_state = \<lparr>qs_endpoint = new_lazy_endpoint \<lparr>certificate = [7], private_key = [8]\<rparr> None,
     qs_client = new_quic_client (SocketV4 1 8009), qs_world = 5\<rparr>"

lemma busy_update_world: "qs_world (update_moving_stats busy_quinn c s) = qs_world s"
  by (simp add: update_moving_stats_def busy_quinn_def sample_quinn_def Let_def)

lemma busy_calm: "calm busy_quinn qs_world"
proof -
  have "qs_world s' = qs_world s" if "acquire_connection busy_quinn n i st s = (y, st', s')" for n i st s y st' s'
    using that
    by (auto simp: acquire_connection_def make_connection_def make_connection_0rtt_def get_endpoint_def
        create_endpoint_def base_endpoint_def create_quinn_endpoint_def busy_quinn_def sample_quinn_def
        Let_def split: option.splits if_splits)
  moreover have "qs_world s' = qs_world s" if "send_on_connection busy_quinn d t c st s = (r, st', s')" for d t c st s r st' s'
    using that busy_update_world[of c s]
    by (auto simp: send_on_connection_def send_buffer_using_conn_def Let_def busy_quinn_def split: if_splits)
  moreover have "qs_world (q_lock busy_quinn s) \<le> qs_world s
      \<and> (client_connection (qs_client (q_lock busy_quinn s)) \<noteq> client_connection (qs_client s)
          \<longrightarrow> qs_world (q_lock busy_quinn s) < qs_world s)" for s
    by (simp add: busy_quinn_def)
  ultimately show ?thesis unfolding calm_def by force
qed

theorem send_returns_with_bounded_interference_witness:
  "\<exists>r stats' s'. send_buffer0 9 busy_quinn [1, 2] default_client_stats busy_state
     = Some (Return r, stats', s')"
proof -
  have "endpoint_creatable busy_quinn"
    by (auto simp: endpoint_creatable_def busy_quinn_def sample_quinn_def create_endpoint_def
        base_endpoint_def create_quinn_endpoint_def split: option.split)
  from send_returns_with_bounded_interference[OF busy_calm this, of busy_state] show ?thesis
    by (simp add: busy_state_def)
qed

lemma sample_send:
  "\<exists>r stats' s'. send_buffer0 4 (observed_quinn sample_quinn) [1, 2] default_client_stats sample_state
     = Some (Return (Inr r), stats', s')"
proof -
  have four: "(4 :: nat) = Suc 3" by simp
  show ?thesis
    unfolding send_buffer0_def four send_buffer_loop.simps
    by (simp add: sample_quinn_def observed_quinn_def sample_state_def
      acquire_connection_def make_connection_def get_endpoint_def create_endpoint_def base_endpoint_def
      create_quinn_endpoint_def new_quic_client_def new_lazy_endpoint_def lifted_def logged_def
      send_on_connection_def send_buffer_using_conn_def update_moving_stats_def Let_def)
qed

theorem send_writes_at_most_once_witness:
  "\<exists>stats' s' c. send_buffer0 4 (observed_quinn sample_quinn) [1, 2] default_client_stats sample_state
     = Some (Return (Inr c), stats', s')
   \<and> written (qs_world s') = written (qs_world sample_state) @ [([1, 2], Inr ())]"
proof -
  obtain c stats' s' where r: "send_buffer0 4 (observed_quinn sample_quinn) [1, 2] default_client_stats
      sample_state = Some (Return (Inr c), stats', s')"
    using sample_send by (elim exE)
  from send_writes_at_most_once[OF r] r show ?thesis by auto
qed

theorem send_never_panics_witness:
  "\<exists>r stats' s' x. send_buffer0 4 (observed_quinn sample_quinn) [1, 2] default_client_stats sample_state
     = Some (r, stats', s') \<and> r = Return x"
proof -
  obtain c stats' s' where r: "send_buffer0 4 (observed_quinn sample_quinn) [1, 2] default_client_stats
      sample_state = Some (Return (Inr c), stats', s')"
    using sample_send by (elim exE)
  from send_never_panics[OF sample_quinn_ok(4) r] r show ?thesis by blast
qed

lemma send_on_connection_open_fails:
  assumes "data \<noteq> []" and "q_open_uni q c (qs_world (update_moving_stats q c s)) = (Inl ce, w')"
  shows "send_on_connection q data start c stats s
    = (Inl (ConnectionError ce), stats, (update_moving_stats q c s)\<lparr>qs_world := w'\<rparr>)"
  using assms by (simp add: send_on_connection_def send_buffer_using_conn_def Let_def)

lemma send_on_connection_succeeds:
  assumes "data \<noteq> []"
    and "send_buffer_using_conn q data c (qs_world (update_moving_stats q c s)) = (Inr (), w')"
  shows "\<exists>stats' s'. send_on_connection q data start c stats s = (Inr (), stats', s')"
  using assms by (simp add: send_on_connection_def Let_def)

lemma make_connection_0rtt_stores:
  "make_connection_0rtt q nc addr stats w = (Inr c, nc', stats', w') \<Longrightarrow> nc_connection nc' = c"
  by (auto simp: make_connection_0rtt_def Let_def split: prod.splits sum.splits option.splits if_splits)


definition stale_connection :: quic_new_connection where
  "stale_connection = \<lparr>nc_endpoint = \<lparr>ep_handle = 1, default_client_config = None\<rparr>,
     nc_connection = \<lparr>stable_id = 5, conn_handle = 99\<rparr>\<rparr>"

definition stale_state :: "nat quic_state" where
  "stale_state = \<lparr>qs_endpoint = new_lazy_endpoint \<lparr>certificate = [7], private_key = [8]\<rparr> None,
     qs_client = (new_quic_client (SocketV4 1 8009))\<lparr>client_connection := Some stale_connection\<rparr>,
     qs_world = 0\<rparr>"

definition stale_quinn :: "nat quinn" where
  "stale_quinn = sample_quinn\<lparr>
     q_handshake := (\<lambda>t h w. (Some (Inr \<lparr>stable_id = 6, conn_handle = 1\<rparr>), w)),
     q_open_uni := (\<lambda>c w. (if conn_handle c = 99 then Inl TimedOut else Inr 0, w))\<rparr>"


definition racing_quinn :: "nat quinn" where
  "racing_quinn = sample_quinn\<lparr>
     q_open_uni := (\<lambda>c w. (Inl TimedOut, w)),
     q_lock := (\<lambda>s. s\<lparr>qs_world := Suc (qs_world s), qs_client := (qs_client s)\<lparr>client_connection :=
        Some \<lparr>nc_endpoint = \<lparr>ep_handle = 1, default_client_config = None\<rparr>,
              nc_connection = \<lparr>stable_id = (if even (qs_world s) then 1 else 2), conn_handle = 0\<rparr>\<rparr>\<rparr>\<rparr>)\<rparr>"

definition racing_state :: "nat quic_state" where
  "racing_state = \<lparr>qs_endpoint = new_lazy_endpoint \<lparr>certificate = [7], private_key = [8]\<rparr> None,
     qs_client = new_quic_client (SocketV4 1 8009), qs_world = 0\<rparr>"

lemma racing_update_world: "qs_world (update_moving_stats racing_quinn c s) = qs_world s"
  by (simp add: update_moving_stats_def racing_quinn_def sample_quinn_def Let_def)

lemma racing_turn:
  assumes "last_id \<noteq> (if even (qs_world s) then 1 else 2)"
  shows "\<exists>stats1 s1 stats2 s2 c. acquire_connection racing_quinn 0 last_id stats (q_lock racing_quinn s)
      = (Return (Inr (c, 0)), stats1, s1)
    \<and> stable_id c = (if even (qs_world s) then 1 else 2)
    \<and> send_on_connection racing_quinn [1] start c stats1 s1 = (Inl (ConnectionError TimedOut), stats2, s2)
    \<and> qs_world s2 = Suc (qs_world s)"
proof -
  let ?c = "\<lparr>stable_id = (if even (qs_world s) then 1 else 2 :: u64), conn_handle = 0\<rparr>"
  have "acquire_connection racing_quinn 0 last_id stats (q_lock racing_quinn s)
      = (Return (Inr (?c, 0)), stats\<lparr>connection_reuse := connection_reuse stats + 1\<rparr>,
         q_lock racing_quinn s)"
    using assms by (simp add: acquire_connection_def racing_quinn_def)
  moreover have "q_open_uni racing_quinn ?c w = (Inl TimedOut, w)" for w
    by (simp add: racing_quinn_def)
  then have "send_on_connection racing_quinn [1] start ?c stats1 s1 = (Inl (ConnectionError TimedOut), stats1,
      (update_moving_stats racing_quinn ?c s1)\<lparr>qs_world := qs_world s1\<rparr>)" for stats1 s1
    by (simp add: send_on_connection_def send_buffer_using_conn_def Let_def racing_update_world)
  moreover have "qs_world (q_lock racing_quinn s) = Suc (qs_world s)"
    by (simp add: racing_quinn_def)
  ultimately show ?thesis by (intro exI[of _ ?c] exI conjI) (assumption | simp)+
qed

lemma racing_loop:
  "last_id \<noteq> (if even (qs_world s) then 1 else 2) \<Longrightarrow>
     send_buffer_loop fuel racing_quinn [1] start 0 last_id le stats s = None"
proof (induction fuel arbitrary: last_id le stats s)
  case 0
  then show ?case by simp
next
  case (Suc fuel)
  from racing_turn[OF Suc.prems, of stats start] obtain stats1 s1 stats2 s2 c where t:
      "acquire_connection racing_quinn 0 last_id stats (q_lock racing_quinn s) = (Return (Inr (c, 0)), stats1, s1)"
      "stable_id c = (if even (qs_world s) then 1 else 2)"
      "send_on_connection racing_quinn [1] start c stats1 s1 = (Inl (ConnectionError TimedOut), stats2, s2)"
      "qs_world s2 = Suc (qs_world s)" by blast
  have "send_buffer_loop fuel racing_quinn [1] start 0 (stable_id c) (Some (ConnectionError TimedOut))
      stats2 s2 = None"
    by (rule Suc.IH) (simp add: t(2,4))
  then show ?case using t(1,3) by simp
qed

text \<open>
  C12: With interference the loop has no bound: reusing a connection does not count as a try, so
  when another task replaces the connection before each turn and no stream can be opened, the send
  never returns, whatever the fuel.
\<close>
theorem reconnect_race_never_ends:
  "send_buffer0 fuel racing_quinn [1] default_client_stats racing_state = None"
  unfolding send_buffer0_def by (rule racing_loop) (simp add: racing_state_def)


lemma sample_batch:
  "\<exists>s'. send_data_batch 4 (observed_quinn sample_quinn) (\<lambda>e. []) (\<lambda>k. TransportCustom [])
     [[1], [2]] sample_state = Some (Return (Inr ()), s')"
proof -
  have four: "(4 :: nat) = Suc 3" by simp
  show ?thesis
    unfolding send_data_batch_def send_batch_def send_buffer0_def four list.case send_buffer_loop.simps
    by (simp add: sample_quinn_def observed_quinn_def sample_state_def
      acquire_connection_def make_connection_def get_endpoint_def create_endpoint_def base_endpoint_def
      create_quinn_endpoint_def new_quic_client_def new_lazy_endpoint_def lifted_def logged_def
      send_on_connection_def send_buffer_using_conn_def update_moving_stats_def Let_def)
qed


text \<open>
  Every call reports to the cache's statistics exactly once, with the number of packets (none
  for an empty one) and whether it succeeded, and counts one successful packet exactly when the
  data was written.
\<close>
lemma send_data_reports_once:
  assumes "send_data fuel (observed_quinn q) debug conv data s = Some (Return r, s')"
  shows "reports (qs_world s') = reports (qs_world s)
      @ [(if r = Inr () \<and> data \<noteq> [] then 1 else 0, if data = [] then 0 else 1, r = Inr ())]"
  using send_data_effects[OF assms] by (auto simp: effects_def packet_count_def split: sum.splits)

lemma send_data_reports_once_witness:
  "\<exists>s' r. send_data 4 (observed_quinn sample_quinn) (\<lambda>e. []) (\<lambda>k. TransportCustom []) [1, 2]
     sample_state = Some (Return r, s') \<and> length (reports (qs_world s')) = 1"
proof -
  have "\<exists>r s'. send_data 4 (observed_quinn sample_quinn) (\<lambda>e. []) (\<lambda>k. TransportCustom []) [1, 2]
     sample_state = Some (Return r, s')"
    using sample_send by (auto simp: send_data_def send_buffer_def)
  then obtain r s' where r: "send_data 4 (observed_quinn sample_quinn) (\<lambda>e. []) (\<lambda>k. TransportCustom [])
     [1, 2] sample_state = Some (Return r, s')" by (elim exE)
  have "reports (qs_world sample_state) = []"
    by (simp add: sample_state_def reports_def map_filter_simps)
  with send_data_reports_once[OF r] r show ?thesis by auto
qed

text \<open>
  The endpoint is created once: the first successful request stores it with the pool's client
  certificate, early data enabled and a 200 ms idle timeout, and every later one returns the
  stored endpoint without touching the world.
\<close>
lemma endpoint_is_created_once:
  assumes "get_endpoint q s = (Return ep, s')"
  shows "get_endpoint q (s'\<lparr>qs_client := cl, qs_world := w\<rparr>) = (Return ep, s'\<lparr>qs_client := cl, qs_world := w\<rparr>)
    \<and> (endpoint_cell (qs_endpoint s) = None \<longrightarrow>
        (\<exists>c. default_client_config ep = Some c \<and> cfg_early_data c \<and> cfg_max_idle_ms c = 200
          \<and> cfg_cert_chain c = [certificate (client_certificate (qs_endpoint s))]
          \<and> cfg_key c = private_key (client_certificate (qs_endpoint s))))"
  using assms
  by (auto simp: get_endpoint_def create_endpoint_def crypto_config_def QUIC_MAX_TIMEOUT_def
      split: option.splits prod.splits outcome.splits if_splits)

lemma endpoint_is_created_once_witness:
  "\<exists>ep s'. get_endpoint (observed_quinn sample_quinn) sample_state = (Return ep, s')
    \<and> get_endpoint (observed_quinn sample_quinn) (s'\<lparr>qs_client := qs_client s', qs_world := qs_world s'\<rparr>)
      = (Return ep, s'\<lparr>qs_client := qs_client s', qs_world := qs_world s'\<rparr>)"
proof -
  have "\<exists>ep s'. get_endpoint (observed_quinn sample_quinn) sample_state = (Return ep, s')"
    by (simp add: sample_quinn_def observed_quinn_def sample_state_def get_endpoint_def
        create_endpoint_def base_endpoint_def create_quinn_endpoint_def new_lazy_endpoint_def lifted_def)
  then obtain ep s' where e: "get_endpoint (observed_quinn sample_quinn) sample_state = (Return ep, s')"
    by (elim exE)
  show ?thesis using endpoint_is_created_once[OF e] e by blast
qed

end
