(* ===== verification/Task_Semaphore.thy ===== *)
theory Task_Semaphore
  imports Quic_Client
begin

text \<open>
  The blocking QUIC client of \<open>src/src/quik/quik_client.rs\<close>: the semaphore that is meant to limit
  the number of spawned sends, the spawned tasks with their timeouts, and the blocking connection.
  The semaphore is a state machine: every atomic section under its mutex is a step, and the
  threads in it, which are interchangeable, are counted.
\<close>

section \<open>The semaphore\<close>

definition MAX_OUTSTANDING_TASK :: u64 where
  "MAX_OUTSTANDING_TASK = 2000"

record semaphore =
  counter :: u64
  permits :: u64

definition new_semaphore :: "u64 \<Rightarrow> semaphore" where
  "new_semaphore n = \<lparr>counter = 0, permits = n\<rparr>"

text \<open>\<open>acquire\<close>: the increment, and the loop condition under which the thread waits.\<close>

definition acquire_enter :: "profile \<Rightarrow> semaphore \<Rightarrow> semaphore outcome" where
  "acquire_enter p m = bind_outcome (add_w p (counter m) 1) (\<lambda>c. Return (m\<lparr>counter := c\<rparr>))"

definition must_wait :: "semaphore \<Rightarrow> bool" where
  "must_wait m \<longleftrightarrow> permits m < counter m"

definition release :: "profile \<Rightarrow> semaphore \<Rightarrow> semaphore outcome" where
  "release p m = bind_outcome (sub_w p (counter m) 1) (\<lambda>c. Return (m\<lparr>counter := c\<rparr>))"

text \<open>
  The threads: \<open>waiting\<close> on the condition variable, \<open>notified\<close> but without the lock yet, and the
  tasks \<open>running\<close> between \<open>acquire\<close> and \<open>release\<close>.
\<close>

record task_system =
  sem :: semaphore
  waiting :: nat
  notified :: nat
  running :: nat

definition initial_system :: "u64 \<Rightarrow> task_system" where
  "initial_system n = \<lparr>sem = new_semaphore n, waiting = 0, notified = 0, running = 0\<rparr>"

text \<open>\<open>release\<close> wakes one of the waiting threads, if there is one; a wake-up may be spurious.\<close>

inductive sem_step :: "profile \<Rightarrow> task_system \<Rightarrow> task_system \<Rightarrow> bool" for p where
  enter_run: "acquire_enter p (sem s) = Return m \<Longrightarrow> \<not> must_wait m
    \<Longrightarrow> sem_step p s (s\<lparr>sem := m, running := running s + 1\<rparr>)"
| enter_wait: "acquire_enter p (sem s) = Return m \<Longrightarrow> must_wait m
    \<Longrightarrow> sem_step p s (s\<lparr>sem := m, waiting := waiting s + 1\<rparr>)"
| wake_run: "0 < notified s \<Longrightarrow> \<not> must_wait (sem s)
    \<Longrightarrow> sem_step p s (s\<lparr>notified := notified s - 1, running := running s + 1\<rparr>)"
| wake_wait: "0 < notified s \<Longrightarrow> must_wait (sem s)
    \<Longrightarrow> sem_step p s (s\<lparr>notified := notified s - 1, waiting := waiting s + 1\<rparr>)"
| spurious: "0 < waiting s
    \<Longrightarrow> sem_step p s (s\<lparr>waiting := waiting s - 1, notified := notified s + 1\<rparr>)"
| finish: "0 < running s \<Longrightarrow> release p (sem s) = Return m
    \<Longrightarrow> sem_step p s (s\<lparr>sem := m, running := running s - 1, waiting := waiting s - 1,
          notified := notified s + min 1 (waiting s)\<rparr>)"

inductive_cases sem_stepE: "sem_step p s s'"

definition sem_reachable :: "profile \<Rightarrow> u64 \<Rightarrow> task_system \<Rightarrow> bool" where
  "sem_reachable p n s \<longleftrightarrow> (sem_step p)\<^sup>*\<^sup>* (initial_system n) s"

section \<open>The spawned sends\<close>

text \<open>Durations in nanoseconds; the largest one is \<open>u64::MAX\<close> seconds and 999999999 ns.\<close>

definition DURATION_MAX :: nat where
  "DURATION_MAX = (2 ^ 64 - 1) * 1000000000 + 999999999"

definition SEND_DATA_TIMEOUT :: nat where
  "SEND_DATA_TIMEOUT = 10 * 1000000000"

definition saturating_mul_duration :: "nat \<Rightarrow> nat \<Rightarrow> nat" where
  "saturating_mul_duration d n = min DURATION_MAX (d * n)"

definition batch_timeout :: "nat \<Rightarrow> nat" where
  "batch_timeout len =
     (if len < 2 ^ 32 then saturating_mul_duration SEND_DATA_TIMEOUT len else DURATION_MAX)"

text \<open>
  \<open>handle_send_result\<close>: an elapsed timeout is counted in the cache's statistics and becomes a
  custom error.
\<close>

definition handle_send_result ::
  "'w quinn \<Rightarrow> send_result option \<Rightarrow> 'w quic_state \<Rightarrow> send_result \<times> 'w quic_state" where
  "handle_send_result q result s =
     (case result of
        Some r \<Rightarrow> (r, s)
      | None \<Rightarrow>
          (Inl (TransportCustom ''Timedout sending data''),
           s\<lparr>qs_world := q_add_client_stats q
                (default_client_stats\<lparr>send_timeout := send_timeout default_client_stats + 1\<rparr>)
                0 False (qs_world s)\<rparr>))"

text \<open>
  A task: \<open>elapses timeout s\<close> says whether the timer elapses first, dropping the send in the state it
  gives. Then the permit is released; a panic of the send ends the task before that.
\<close>

definition run_task ::
  "profile \<Rightarrow> 'w quinn \<Rightarrow> (nat \<Rightarrow> 'w quic_state \<Rightarrow> 'w quic_state option) \<Rightarrow> nat
    \<Rightarrow> ('w quic_state \<Rightarrow> (send_result outcome \<times> 'w quic_state) option) \<Rightarrow> semaphore \<Rightarrow> 'w quic_state
    \<Rightarrow> (send_result outcome \<times> semaphore \<times> 'w quic_state) option" where
  "run_task p q elapses timeout send m s =
     (let finish = (\<lambda>result s1. case release p m of
            Panic e \<Rightarrow> (Panic e, m, s1)
          | Return m1 \<Rightarrow> (let (r, s2) = handle_send_result q result s1 in (Return r, m1, s2)))
      in case elapses timeout s of
           Some s1 \<Rightarrow> Some (finish None s1)
         | None \<Rightarrow> (case send s of
               None \<Rightarrow> None
             | Some (Panic e, s1) \<Rightarrow> Some (Panic e, m, s1)
             | Some (Return r, s1) \<Rightarrow> Some (finish (Some r) s1)))"

definition send_data_async_task ::
  "nat \<Rightarrow> profile \<Rightarrow> 'w quinn \<Rightarrow> (quic_error \<Rightarrow> string) \<Rightarrow> (client_error_kind \<Rightarrow> transport_error)
    \<Rightarrow> (nat \<Rightarrow> 'w quic_state \<Rightarrow> 'w quic_state option) \<Rightarrow> bytes \<Rightarrow> semaphore \<Rightarrow> 'w quic_state
    \<Rightarrow> (send_result outcome \<times> semaphore \<times> 'w quic_state) option" where
  "send_data_async_task fuel p q debug conv elapses buffer =
     run_task p q elapses SEND_DATA_TIMEOUT (send_data fuel q debug conv buffer)"

definition send_data_batch_async_task ::
  "nat \<Rightarrow> profile \<Rightarrow> 'w quinn \<Rightarrow> (quic_error \<Rightarrow> string) \<Rightarrow> (client_error_kind \<Rightarrow> transport_error)
    \<Rightarrow> (nat \<Rightarrow> 'w quic_state \<Rightarrow> 'w quic_state option) \<Rightarrow> bytes list \<Rightarrow> semaphore \<Rightarrow> 'w quic_state
    \<Rightarrow> (send_result outcome \<times> semaphore \<times> 'w quic_state) option" where
  "send_data_batch_async_task fuel p q debug conv elapses buffers =
     run_task p q elapses (batch_timeout (length buffers)) (send_data_batch fuel q debug conv buffers)"

section \<open>The blocking connection\<close>

text \<open>The blocking connection wraps a nonblocking one.\<close>

record blocking_connection =
  inner_connection :: quic_client_connection

definition blocking_new :: "lazy_endpoint \<Rightarrow> socket_addr \<Rightarrow> nat \<Rightarrow> blocking_connection" where
  "blocking_new ep addr stats = \<lparr>inner_connection = new_quic_client_connection ep addr stats\<rparr>"

definition blocking_new_with_client :: "lazy_endpoint \<Rightarrow> quic_client \<Rightarrow> nat \<Rightarrow> blocking_connection" where
  "blocking_new_with_client ep client stats = \<lparr>inner_connection = new_with_client ep client stats\<rparr>"

definition blocking_server_addr :: "blocking_connection \<Rightarrow> socket_addr" where
  "blocking_server_addr conn = server_addr (inner_connection conn)"

text \<open>
  \<open>send_data\<close> and \<open>send_data_batch\<close> block on the nonblocking ones. The asynchronous calls wait for
  a permit, spawn their task and report success, whatever becomes of the send: a call is the
  entry step of the semaphore, with the task handed to the runtime when it does not wait.
\<close>

definition blocking_send_data ::
  "nat \<Rightarrow> 'w quinn \<Rightarrow> (quic_error \<Rightarrow> string) \<Rightarrow> (client_error_kind \<Rightarrow> transport_error) \<Rightarrow> bytes
    \<Rightarrow> 'w quic_state \<Rightarrow> (send_result outcome \<times> 'w quic_state) option" where
  "blocking_send_data fuel q debug conv buffer s =
     (case send_data fuel q debug conv buffer s of
        Some (Return (Inr u), s1) \<Rightarrow> Some (Return (Inr ()), s1)
      | r \<Rightarrow> r)"

definition blocking_send_data_batch ::
  "nat \<Rightarrow> 'w quinn \<Rightarrow> (quic_error \<Rightarrow> string) \<Rightarrow> (client_error_kind \<Rightarrow> transport_error) \<Rightarrow> bytes list
    \<Rightarrow> 'w quic_state \<Rightarrow> (send_result outcome \<times> 'w quic_state) option" where
  "blocking_send_data_batch fuel q debug conv buffers s =
     (case send_data_batch fuel q debug conv buffers s of
        Some (Return (Inr u), s1) \<Rightarrow> Some (Return (Inr ()), s1)
      | r \<Rightarrow> r)"

text \<open>A call on a free semaphore: the spawned job and the immediate answer; \<open>None\<close> is waiting.\<close>

datatype spawned_job = SendJob bytes | BatchJob "bytes list"

definition spawn_job ::
  "profile \<Rightarrow> semaphore \<Rightarrow> spawned_job list \<Rightarrow> spawned_job
    \<Rightarrow> (send_result outcome \<times> spawned_job list) option \<times> semaphore" where
  "spawn_job p m spawned job =
     (case acquire_enter p m of
        Panic e \<Rightarrow> (Some (Panic e, spawned), m)
      | Return m1 \<Rightarrow>
          (if must_wait m1 then None else Some (Return (Inr ()), spawned @ [job]), m1))"

definition send_data_async ::
  "profile \<Rightarrow> semaphore \<Rightarrow> spawned_job list \<Rightarrow> bytes
    \<Rightarrow> (send_result outcome \<times> spawned_job list) option \<times> semaphore" where
  "send_data_async p m spawned data = spawn_job p m spawned (SendJob data)"

definition send_data_batch_async ::
  "profile \<Rightarrow> semaphore \<Rightarrow> spawned_job list \<Rightarrow> bytes list
    \<Rightarrow> (send_result outcome \<times> spawned_job list) option \<times> semaphore" where
  "send_data_batch_async p m spawned buffers = spawn_job p m spawned (BatchJob buffers)"

section \<open>Invariants of the semaphore\<close>

definition sem_inv :: "u64 \<Rightarrow> task_system \<Rightarrow> bool" where
  "sem_inv n s \<longleftrightarrow> permits (sem s) = n
     \<and> unat (counter (sem s)) = waiting s + notified s + running s
     \<and> running s \<le> unat n
     \<and> (0 < waiting s \<and> \<not> must_wait (sem s) \<longrightarrow> 0 < notified s + running s)"

lemma acquire_enter_Checked:
  assumes "acquire_enter Checked m = Return m'"
  shows "permits m' = permits m \<and> unat (counter m') = Suc (unat (counter m))"
  using assms unat_add_fits[of "counter m" 1]
  by (auto simp: acquire_enter_def add_w_def bind_outcome_Return_iff split: if_splits)

lemma release_Checked:
  assumes "0 < unat (counter m)"
  shows "\<exists>m'. release p m = Return m' \<and> permits m' = permits m
    \<and> unat (counter m') = unat (counter m) - 1"
proof -
  have "1 \<le> counter m" using assms by (simp add: word_le_nat_alt)
  then show ?thesis
    by (simp add: release_def sub_w_fits unat_sub_fits)
qed

lemma sem_inv_initial: "sem_inv n (initial_system n)"
  by (simp add: sem_inv_def initial_system_def new_semaphore_def)

lemma sem_inv_step: "sem_step Checked s s' \<Longrightarrow> sem_inv n s \<Longrightarrow> sem_inv n s'"
proof (induction rule: sem_step.induct)
  case (enter_run s m)
  then show ?case
    using acquire_enter_Checked[of "sem s" m]
    by (auto simp: sem_inv_def must_wait_def word_less_nat_alt)
next
  case (enter_wait s m)
  then show ?case
    using acquire_enter_Checked[of "sem s" m] by (auto simp: sem_inv_def)
next
  case (wake_run s)
  then show ?case by (auto simp: sem_inv_def must_wait_def word_less_nat_alt)
next
  case (wake_wait s)
  then show ?case by (auto simp: sem_inv_def)
next
  case (spurious s)
  then show ?case by (auto simp: sem_inv_def)
next
  case (finish s m)
  then show ?case
    using release_Checked[of "sem s" Checked] by (auto simp: sem_inv_def min_def)
qed

lemma sem_reachable_inv: "sem_reachable Checked n s \<Longrightarrow> sem_inv n s"
  unfolding sem_reachable_def
  by (induction rule: rtranclp_induct) (auto intro: sem_inv_initial sem_inv_step)

interpretation blocking_sender: packet_sender "blocking_send_data fuel (observed_quinn q) debug conv"
    "\<lambda>s. written (qs_world s)" for fuel q debug conv
proof unfold_locales
  have inner: "send_data fuel (observed_quinn q) debug conv d s = Some (Return r, s')"
    if "blocking_send_data fuel (observed_quinn q) debug conv d s = Some (Return r, s')" for d s r s'
    using that by (auto simp: blocking_send_data_def split: option.splits prod.splits outcome.splits sum.splits)
  show "written (qs_world s') = written (qs_world s) @ (if d = [] then [] else [(d, Inr ())])"
    if "blocking_send_data fuel (observed_quinn q) debug conv d s = Some (Return (Inr ()), s')" for d s s'
    by (rule quic_sender.deliver_ok[OF inner[OF that]])
  show "written (qs_world s') = written (qs_world s)
      \<or> (d \<noteq> [] \<and> (\<exists>we. written (qs_world s') = written (qs_world s) @ [(d, Inl we)]))"
    if "blocking_send_data fuel (observed_quinn q) debug conv d s = Some (Return (Inl e), s')" for d s e s'
    by (rule quic_sender.deliver_err[OF inner[OF that]])
qed

section \<open>Deadlock\<close>

definition dead :: "task_system \<Rightarrow> bool" where
  "dead s \<longleftrightarrow> running s = 0 \<and> must_wait (sem s)"

lemma dead_step: "sem_step Checked s s' \<Longrightarrow> dead s \<Longrightarrow> dead s'"
proof (induction rule: sem_step.induct)
  case (enter_run s m)
  then show ?case
    using acquire_enter_Checked[of "sem s" m] by (auto simp: dead_def must_wait_def word_less_nat_alt)
next
  case (enter_wait s m)
  then show ?case by (simp add: dead_def)
qed (auto simp: dead_def)

lemma dead_forever: "(sem_step Checked)\<^sup>*\<^sup>* s s' \<Longrightarrow> dead s \<Longrightarrow> dead s'"
  by (induction rule: rtranclp_induct) (auto intro: dead_step)

text \<open>Systems without a notified thread, by counter, waiting and running threads.\<close>

definition quiescent :: "u64 \<Rightarrow> nat \<Rightarrow> nat \<Rightarrow> nat \<Rightarrow> task_system" where
  "quiescent n c w r =
     \<lparr>sem = \<lparr>counter = of_nat c, permits = n\<rparr>, waiting = w, notified = 0, running = r\<rparr>"

lemma unat_of_nat_fits: "c < 2 ^ 64 \<Longrightarrow> unat (of_nat c :: u64) = c"
  by (simp add: unsigned_of_nat take_bit_nat_eq_self)

lemma quiescent_acquire:
  assumes "Suc c < 2 ^ 64"
  shows "acquire_enter p \<lparr>counter = of_nat c, permits = n\<rparr> = Return \<lparr>counter = of_nat (Suc c), permits = n\<rparr>"
proof -
  have c: "unat (of_nat c :: u64) = c" by (rule unat_of_nat_fits) (use assms in simp)
  have "unat (of_nat c :: u64) + unat (1 :: u64) < 2 ^ LENGTH(64)"
    unfolding c using assms by simp
  from add_w_fits[OF this, of p] have "add_w p (of_nat c) 1 = Return (of_nat (Suc c) :: u64)"
    by (simp only: of_nat_Suc add.commute)
  then show ?thesis by (simp add: acquire_enter_def del: of_nat_Suc)
qed

lemma quiescent_must_wait:
  "c < 2 ^ 64 \<Longrightarrow> must_wait \<lparr>counter = of_nat c, permits = n\<rparr> \<longleftrightarrow> unat n < c"
  by (simp add: must_wait_def word_less_nat_alt unat_of_nat_fits)

lemma quiescent_run:
  "Suc c \<le> unat n \<Longrightarrow> sem_step p (quiescent n c w r) (quiescent n (Suc c) w (Suc r))"
  using sem_step.enter_run[of p "quiescent n c w r"] quiescent_acquire[of c p n]
    quiescent_must_wait[of "Suc c" n] unat_u64_lt[of n]
  by (simp add: quiescent_def del: of_nat_Suc)

lemma quiescent_wait:
  "unat n \<le> c \<Longrightarrow> Suc c < 2 ^ 64 \<Longrightarrow> sem_step p (quiescent n c w r) (quiescent n (Suc c) (Suc w) r)"
  using sem_step.enter_wait[of p "quiescent n c w r"] quiescent_acquire[of c p n]
    quiescent_must_wait[of "Suc c" n]
  by (simp add: quiescent_def del: of_nat_Suc)

text \<open>A release above the limit: the thread it wakes has to wait again.\<close>

lemma quiescent_wasted_release:
  assumes "unat n < c" and "Suc c < 2 ^ 64"
  shows "(sem_step p)\<^sup>*\<^sup>* (quiescent n (Suc c) (Suc w) (Suc r)) (quiescent n c (Suc w) r)"
proof -
  let ?mid = "\<lparr>sem = \<lparr>counter = of_nat c, permits = n\<rparr>, waiting = w, notified = 1, running = r\<rparr>"
  have "release p \<lparr>counter = of_nat (Suc c), permits = n\<rparr> = Return \<lparr>counter = of_nat c, permits = n\<rparr>"
  proof -
    have "(1 :: u64) \<le> of_nat (Suc c)"
      using unat_of_nat_fits[of "Suc c"] assms(2) by (simp add: word_le_nat_alt del: of_nat_Suc)
    then show ?thesis by (simp add: release_def sub_w_fits)
  qed
  then have "sem_step p (quiescent n (Suc c) (Suc w) (Suc r)) ?mid"
    using sem_step.finish[of "quiescent n (Suc c) (Suc w) (Suc r)" p]
    by (simp add: quiescent_def del: of_nat_Suc)
  moreover have "sem_step p ?mid (quiescent n c (Suc w) r)"
    using sem_step.wake_wait[of ?mid p] quiescent_must_wait[of c n] assms by (simp add: quiescent_def)
  ultimately show ?thesis by (metis converse_rtranclp_into_rtranclp rtranclp.rtrancl_refl)
qed

lemma reach_full: "k \<le> unat n \<Longrightarrow> (sem_step p)\<^sup>*\<^sup>* (quiescent n 0 0 0) (quiescent n k 0 k)"
proof (induction k)
  case 0
  then show ?case by simp
next
  case (Suc k)
  then show ?case using quiescent_run[of k n p 0 k] by (simp add: rtranclp.rtrancl_into_rtrancl)
qed

lemma reach_waiting:
  "unat n + k < 2 ^ 64 \<Longrightarrow>
     (sem_step p)\<^sup>*\<^sup>* (quiescent n (unat n) 0 (unat n)) (quiescent n (unat n + k) k (unat n))"
proof (induction k)
  case 0
  then show ?case by simp
next
  case (Suc k)
  then show ?case
    using quiescent_wait[of n "unat n + k" p k "unat n"] by (simp add: rtranclp.rtrancl_into_rtrancl)
qed

lemma reach_drained:
  "unat n + Suc w < 2 ^ 64 \<Longrightarrow> unat n < Suc w \<Longrightarrow> k \<le> unat n \<Longrightarrow>
     (sem_step p)\<^sup>*\<^sup>* (quiescent n (unat n + Suc w) (Suc w) (unat n))
       (quiescent n (unat n - k + Suc w) (Suc w) (unat n - k))"
proof (induction k)
  case 0
  then show ?case by simp
next
  case (Suc k)
  define m where "m = unat n - Suc k"
  have m: "unat n - k = Suc m" "unat n < m + Suc w" "Suc (m + Suc w) < 2 ^ 64"
    using Suc.prems by (simp_all add: m_def)
  have "(sem_step p)\<^sup>*\<^sup>* (quiescent n (unat n - k + Suc w) (Suc w) (unat n - k))
      (quiescent n (m + Suc w) (Suc w) m)"
    using quiescent_wasted_release[OF m(2,3), of p w m] unfolding m(1) by simp
  then show ?case using Suc unfolding m_def by (meson Suc_leD rtranclp_trans)
qed

lemma deadlock_reachable:
  assumes "2 * unat n + 1 < 2 ^ 64"
  shows "sem_reachable p n (quiescent n (Suc (unat n)) (Suc (unat n)) 0)"
proof -
  have "(sem_step p)\<^sup>*\<^sup>* (quiescent n 0 0 0) (quiescent n (unat n) 0 (unat n))" by (rule reach_full) simp
  also have "(sem_step p)\<^sup>*\<^sup>* (quiescent n (unat n) 0 (unat n))
      (quiescent n (unat n + Suc (unat n)) (Suc (unat n)) (unat n))"
    by (rule reach_waiting) (use assms in simp)
  also have "(sem_step p)\<^sup>*\<^sup>* (quiescent n (unat n + Suc (unat n)) (Suc (unat n)) (unat n))
      (quiescent n (unat n - unat n + Suc (unat n)) (Suc (unat n)) (unat n - unat n))"
    by (rule reach_drained) (use assms in simp_all)
  finally show ?thesis
    by (simp add: sem_reachable_def quiescent_def initial_system_def new_semaphore_def)
qed

section \<open>Properties\<close>

text \<open>
  C13: In every reachable state the counter is the number of threads between entry and release,
  those that wait included, and at most \<open>permits\<close> tasks run; and when threads wait although the
  counter is within the limit, some thread runs or is about to.
\<close>
theorem semaphore_bounds_running:
  assumes "sem_reachable Checked n s"
  shows "running s \<le> unat n
    \<and> unat (counter (sem s)) = waiting s + notified s + running s
    \<and> (0 < waiting s \<and> \<not> must_wait (sem s) \<longrightarrow> 0 < notified s + running s)"
  using sem_reachable_inv[OF assms] by (simp add: sem_inv_def)

theorem semaphore_bounds_running_witness:
  "unat (counter (sem (quiescent 2 3 3 0))) = 3"
  using semaphore_bounds_running[OF deadlock_reachable[of 2 Checked]]
  by (simp add: quiescent_def)

text \<open>
  C14: The semaphore can deadlock: because waiting threads are counted as well, 2000 running tasks
  and 2001 callers that wait lead, when all tasks have finished, to a state where nothing runs,
  every caller waits, and no further steps, new calls and wake-ups included, ever let a task run.
\<close>
theorem semaphore_can_deadlock:
  "\<exists>s. sem_reachable Checked MAX_OUTSTANDING_TASK s \<and> running s = 0 \<and> waiting s = 2001
    \<and> {s'. (sem_step Checked)\<^sup>*\<^sup>* s s'} \<subseteq> {s'. running s' = 0}"
proof -
  let ?s = "quiescent MAX_OUTSTANDING_TASK 2001 2001 0"
  have n: "unat MAX_OUTSTANDING_TASK = 2000" by (simp add: MAX_OUTSTANDING_TASK_def)
  have "sem_reachable Checked MAX_OUTSTANDING_TASK ?s"
    using deadlock_reachable[of MAX_OUTSTANDING_TASK Checked] by (simp add: n)
  moreover have "dead ?s"
    using quiescent_must_wait[of 2001 MAX_OUTSTANDING_TASK] by (simp add: dead_def quiescent_def n)
  ultimately show ?thesis
    using dead_forever by (intro exI[of _ ?s]) (auto simp: quiescent_def dead_def)
qed


definition one_running :: semaphore where
  "one_running = \<lparr>counter = 1, permits = 2000\<rparr>"


text \<open>
  A send that its timer cuts off ends in the timeout error, and adds one failed report of no
  packets to the statistics.
\<close>
lemma timeout_is_reported:
  assumes "elapses SEND_DATA_TIMEOUT s = Some s1"
    and "0 < unat (counter m)"
  shows "\<exists>m' s'. send_data_async_task fuel p (observed_quinn q) debug conv elapses buffer m s
      = Some (Return (Inl (TransportCustom ''Timedout sending data'')), m', s')
    \<and> reports (qs_world s') = reports (qs_world s1) @ [(0, 0, False)]
    \<and> written (qs_world s') = written (qs_world s1)"
proof -
  obtain m1 where "release p m = Return m1" using release_Checked[OF assms(2)] by blast
  then show ?thesis
    using assms(1)
      observed_report[of "qs_world s1" q "default_client_stats\<lparr>send_timeout := 1\<rparr>" 0 False]
    by (simp add: send_data_async_task_def run_task_def handle_send_result_def effects_def
        default_client_stats_def)
qed

lemma timeout_is_reported_witness:
  "\<exists>m' s'. send_data_async_task 4 Checked (observed_quinn sample_quinn) (\<lambda>e. [])
      (\<lambda>k. TransportCustom []) (\<lambda>t s. Some s) [1] one_running sample_state
      = Some (Return (Inl (TransportCustom ''Timedout sending data'')), m', s')"
  using timeout_is_reported[where elapses = "\<lambda>t s. Some s" and s = sample_state
      and ?s1.0 = sample_state and m = one_running and fuel = 4 and p = Checked and q = sample_quinn
      and debug = "\<lambda>e. []" and conv = "\<lambda>k. TransportCustom []" and buffer = "[1]"]
  by (auto simp: one_running_def)

text \<open>
  The timeout of a batch is exactly ten seconds per buffer: for a length that fits 32 bits the
  saturating product never saturates, and a longer batch gets the largest duration.
\<close>
lemma batch_timeout_exact:
  "batch_timeout len = (if len < 2 ^ 32 then 10000000000 * len else DURATION_MAX)
   \<and> batch_timeout len \<le> DURATION_MAX"
proof -
  have "10000000000 * len \<le> DURATION_MAX" if "len < 2 ^ 32"
    using that by (simp add: DURATION_MAX_def)
  then show ?thesis
    by (auto simp: batch_timeout_def saturating_mul_duration_def SEND_DATA_TIMEOUT_def min_def)
qed

text \<open>
  An asynchronous send is fire and forget: when its call returns without a panic it has
  reported success and queued exactly its job, within the permits, whatever becomes of the job;
  when it has to wait, nothing is queued but the counter has already been raised.
\<close>
lemma async_send_is_fire_and_forget:
  assumes "send_data_async Checked m spawned data = (result, m')"
  shows "case result of
      Some (Return r, jobs) \<Rightarrow> r = Inr () \<and> jobs = spawned @ [SendJob data]
        \<and> counter m' \<le> permits m \<and> unat (counter m') = Suc (unat (counter m))
    | Some (Panic e, jobs) \<Rightarrow> jobs = spawned \<and> m' = m
    | None \<Rightarrow> permits m < counter m' \<and> unat (counter m') = Suc (unat (counter m))"
  using assms acquire_enter_Checked[of m]
  by (auto simp: send_data_async_def spawn_job_def must_wait_def
      split: outcome.splits if_splits option.splits)

lemma async_send_is_fire_and_forget_witness:
  "snd (send_data_async Checked \<lparr>counter = 0, permits = 1\<rparr> [] [5]) = \<lparr>counter = 1, permits = 1\<rparr>
   \<and> (\<exists>jobs. fst (send_data_async Checked \<lparr>counter = 0, permits = 1\<rparr> [] [5]) = Some (Return (Inr ()), jobs)
        \<and> jobs = [SendJob [5]])"
proof -
  have a: "send_data_async Checked \<lparr>counter = 0, permits = 1\<rparr> [] [5]
      = (Some (Return (Inr ()), [SendJob [5]]), \<lparr>counter = 1, permits = 1\<rparr>)"
    by (simp add: send_data_async_def spawn_job_def acquire_enter_def add_w_def must_wait_def)
  from async_send_is_fire_and_forget[OF a] show ?thesis using a by simp
qed

end
