(* ===== verification/Quic_Pool.thy ===== *)
theory Quic_Pool
  imports Task_Semaphore Tpu_Client
begin

text \<open>
  The pieces that plug the QUIC client into the external connection cache: configuration, pool and
  manager of \<open>src/src/quik/mod.rs\<close>, and the wrapper of \<open>src/src/engine/connection_cache.rs\<close>. The
  cache itself, key pairs and certificates are parameters. At the end the nonblocking QUIC client
  is put behind the connection operations that the TPU client uses.
\<close>

section \<open>Configuration\<close>

record quic_config =
  config_certificate :: quic_client_certificate
  maybe_staked_nodes :: "nat option"
  maybe_client_pubkey :: "pubkey option"
  config_endpoint :: "quic_endpoint option"

definition dummy_certificate :: "('kp \<Rightarrow> bytes \<times> bytes) \<Rightarrow> 'kp \<Rightarrow> quic_client_certificate" where
  "dummy_certificate new_dummy_x509_certificate keypair =
     (let (cert, priv_key) = new_dummy_x509_certificate keypair
      in \<lparr>certificate = cert, private_key = priv_key\<rparr>)"

text \<open>\<open>QuicConfig::new\<close> never fails; \<open>fresh\<close> is the key pair it generates.\<close>

definition new_quic_config ::
  "('kp \<Rightarrow> bytes \<times> bytes) \<Rightarrow> 'kp \<Rightarrow> string + quic_config" where
  "new_quic_config mk fresh =
     Inr \<lparr>config_certificate = dummy_certificate mk fresh, maybe_staked_nodes = None,
          maybe_client_pubkey = None, config_endpoint = None\<rparr>"

definition clone_config :: "quic_config \<Rightarrow> quic_config" where
  "clone_config c =
     (let cert_guard = config_certificate c
      in \<lparr>config_certificate = cert_guard, maybe_staked_nodes = maybe_staked_nodes c,
          maybe_client_pubkey = maybe_client_pubkey c, config_endpoint = config_endpoint c\<rparr>)"

definition create_lazy_endpoint :: "quic_config \<Rightarrow> lazy_endpoint" where
  "create_lazy_endpoint c = new_lazy_endpoint (config_certificate c) (config_endpoint c)"

definition update_client_certificate ::
  "('kp \<Rightarrow> bytes \<times> bytes) \<Rightarrow> 'kp \<Rightarrow> 'ip \<Rightarrow> quic_config \<Rightarrow> quic_config" where
  "update_client_certificate mk keypair ipaddr c = c\<lparr>config_certificate := dummy_certificate mk keypair\<rparr>"

definition update_keypair :: "('kp \<Rightarrow> bytes \<times> bytes) \<Rightarrow> 'kp \<Rightarrow> quic_config \<Rightarrow> quic_config" where
  "update_keypair mk keypair c = c\<lparr>config_certificate := dummy_certificate mk keypair\<rparr>"

definition set_staked_nodes :: "nat \<Rightarrow> pubkey \<Rightarrow> quic_config \<Rightarrow> quic_config" where
  "set_staked_nodes staked_nodes client_pubkey c =
     c\<lparr>maybe_staked_nodes := Some staked_nodes, maybe_client_pubkey := Some client_pubkey\<rparr>"

definition update_client_endpoint :: "quic_endpoint \<Rightarrow> quic_config \<Rightarrow> quic_config" where
  "update_client_endpoint ep c = c\<lparr>config_endpoint := Some ep\<rparr>"

section \<open>Pool and manager\<close>

record quic_pool =
  pool_connections :: "quic_client list"
  pool_endpoint :: lazy_endpoint

datatype connection_pool_error = IndexOutOfRange

text \<open>A pool entry is a fresh client on the pool's endpoint, which the entries share.\<close>

definition create_pool_entry :: "quic_pool \<Rightarrow> quic_config \<Rightarrow> socket_addr \<Rightarrow> quic_client" where
  "create_pool_entry pool config addr = new_quic_client addr"

definition add_connection :: "quic_config \<Rightarrow> socket_addr \<Rightarrow> quic_pool \<Rightarrow> nat \<times> quic_pool" where
  "add_connection config addr pool =
     (let connection = create_pool_entry pool config addr;
          idx = length (pool_connections pool)
      in (idx, pool\<lparr>pool_connections := pool_connections pool @ [connection]\<rparr>))"

definition num_connections :: "quic_pool \<Rightarrow> nat" where
  "num_connections pool = length (pool_connections pool)"

definition pool_get :: "quic_pool \<Rightarrow> nat \<Rightarrow> connection_pool_error + quic_client" where
  "pool_get pool index =
     (if index < length (pool_connections pool) then Inr (pool_connections pool ! index)
      else Inl IndexOutOfRange)"

text \<open>
  A pool entry makes connections to its own client; the address it is called with is ignored.
\<close>

definition new_blocking_connection ::
  "quic_pool \<Rightarrow> quic_client \<Rightarrow> socket_addr \<Rightarrow> nat \<Rightarrow> blocking_connection" where
  "new_blocking_connection pool client addr stats =
     blocking_new_with_client (pool_endpoint pool) client stats"

definition new_nonblocking_connection ::
  "quic_pool \<Rightarrow> quic_client \<Rightarrow> socket_addr \<Rightarrow> nat \<Rightarrow> quic_client_connection" where
  "new_nonblocking_connection pool client addr stats =
     new_with_client (pool_endpoint pool) client stats"

record quic_connection_manager =
  connection_config :: quic_config

definition new_with_connection_config :: "quic_config \<Rightarrow> quic_connection_manager" where
  "new_with_connection_config c = \<lparr>connection_config = c\<rparr>"

definition PROTOCOL :: protocol where
  "PROTOCOL = QUIC"

definition new_connection_pool :: "quic_connection_manager \<Rightarrow> quic_pool" where
  "new_connection_pool m =
     \<lparr>pool_connections = [], pool_endpoint = create_lazy_endpoint (connection_config m)\<rparr>"

definition new_connection_config :: "quic_connection_manager \<Rightarrow> quic_config" where
  "new_connection_config m = clone_config (connection_config m)"

definition update_key ::
  "('kp \<Rightarrow> bytes \<times> bytes) \<Rightarrow> 'kp \<Rightarrow> quic_connection_manager \<Rightarrow> (string + unit) \<times> quic_connection_manager" where
  "update_key mk key m =
     (Inr (), m\<lparr>connection_config := update_keypair mk key (connection_config m)\<rparr>)"

text \<open>\<open>new_quic_connection_cache\<close>; \<open>backend_new\<close> is the external cache's constructor.\<close>

definition new_quic_connection_cache ::
  "('kp \<Rightarrow> bytes \<times> bytes) \<Rightarrow> ('kp \<Rightarrow> pubkey) \<Rightarrow> 'kp
    \<Rightarrow> (string \<Rightarrow> quic_connection_manager \<Rightarrow> nat \<Rightarrow> string + 'cache)
    \<Rightarrow> string \<Rightarrow> 'kp \<Rightarrow> 'ip \<Rightarrow> nat \<Rightarrow> nat \<Rightarrow> string + 'cache" where
  "new_quic_connection_cache mk pubkey_of fresh backend_new name keypair ipaddr staked_nodes pool_size =
     (case new_quic_config mk fresh of
        Inl e \<Rightarrow> Inl e
      | Inr config \<Rightarrow>
          (let config1 = update_client_certificate mk keypair ipaddr config;
               config2 = set_staked_nodes staked_nodes (pubkey_of keypair) config1;
               connection_manager = new_with_connection_config config2
           in backend_new name connection_manager pool_size))"

section \<open>The connection cache wrapper\<close>

definition DEFAULT_CONNECTION_POOL_SIZE :: nat where
  "DEFAULT_CONNECTION_POOL_SIZE = 4"

datatype 'cache connection_cache = Quic 'cache

datatype 'conn blocking_client_connection = BlockingQuic 'conn

datatype 'conn nonblocking_client_connection = NonblockingQuic 'conn

definition new_with_client_options ::
  "('kp \<Rightarrow> bytes \<times> bytes) \<Rightarrow> 'kp \<Rightarrow> (string \<Rightarrow> quic_connection_manager \<Rightarrow> nat \<Rightarrow> string + 'cache)
    \<Rightarrow> string \<Rightarrow> nat \<Rightarrow> quic_endpoint option \<Rightarrow> ('kp \<times> 'ip) option \<Rightarrow> (nat \<times> pubkey) option
    \<Rightarrow> 'cache connection_cache outcome" where
  "new_with_client_options mk fresh backend_new name connection_pool_size ep cert_info stake_info =
     (let pool_size = max 1 connection_pool_size in
      case new_quic_config mk fresh of
        Inl e \<Rightarrow> Panic UnwrapFailed
      | Inr config \<Rightarrow>
          (let config1 = (case ep of Some x \<Rightarrow> update_client_endpoint x config | None \<Rightarrow> config);
               config2 = (case cert_info of Some (kp, ip) \<Rightarrow> update_client_certificate mk kp ip config1
                                          | None \<Rightarrow> config1);
               config3 = (case stake_info of Some (sn, pk) \<Rightarrow> set_staked_nodes sn pk config2
                                           | None \<Rightarrow> config2)
           in case backend_new name (new_with_connection_config config3) pool_size of
                Inl e \<Rightarrow> Panic UnwrapFailed
              | Inr cache \<Rightarrow> Return (Quic cache)))"

definition new_connection_cache ::
  "('kp \<Rightarrow> bytes \<times> bytes) \<Rightarrow> 'kp \<Rightarrow> 'kp \<Rightarrow> 'ip
    \<Rightarrow> (string \<Rightarrow> quic_connection_manager \<Rightarrow> nat \<Rightarrow> string + 'cache) \<Rightarrow> string
    \<Rightarrow> 'cache connection_cache outcome" where
  "new_connection_cache mk fresh keypair unspecified_ip backend_new name =
     new_with_client_options mk fresh backend_new name DEFAULT_CONNECTION_POOL_SIZE None
       (Some (keypair, unspecified_ip)) None"

definition new_quic ::
  "('kp \<Rightarrow> bytes \<times> bytes) \<Rightarrow> 'kp \<Rightarrow> (string \<Rightarrow> quic_connection_manager \<Rightarrow> nat \<Rightarrow> string + 'cache)
    \<Rightarrow> string \<Rightarrow> nat \<Rightarrow> 'cache connection_cache outcome" where
  "new_quic mk fresh backend_new name pool_size =
     new_with_client_options mk fresh backend_new name pool_size None (None :: ('kp \<times> unit) option) None"

primrec cache_protocol :: "'cache connection_cache \<Rightarrow> protocol" where
  "cache_protocol (Quic backend) = QUIC"

primrec use_quic :: "'cache connection_cache \<Rightarrow> bool" where
  "use_quic (Quic backend) = True"

primrec cache_update_key ::
  "('cache \<Rightarrow> 'kp \<Rightarrow> (string + unit) \<times> 'cache) \<Rightarrow> 'cache connection_cache \<Rightarrow> 'kp
    \<Rightarrow> (string + unit) \<times> 'cache connection_cache" where
  "cache_update_key backend_update_key (Quic backend) key =
     (let (r, backend1) = backend_update_key backend key in (r, Quic backend1))"

primrec get_connection ::
  "('cache \<Rightarrow> socket_addr \<Rightarrow> 'conn \<times> 'cache) \<Rightarrow> 'cache connection_cache \<Rightarrow> socket_addr
    \<Rightarrow> 'conn blocking_client_connection \<times> 'cache connection_cache" where
  "get_connection backend_get (Quic cache) addr =
     (let (c, cache1) = backend_get cache addr in (BlockingQuic c, Quic cache1))"

primrec cache_get_nonblocking_connection ::
  "('cache \<Rightarrow> socket_addr \<Rightarrow> 'conn \<times> 'cache) \<Rightarrow> 'cache connection_cache \<Rightarrow> socket_addr
    \<Rightarrow> 'conn nonblocking_client_connection \<times> 'cache connection_cache" where
  "cache_get_nonblocking_connection backend_get (Quic cache) addr =
     (let (c, cache1) = backend_get cache addr in (NonblockingQuic c, Quic cache1))"

text \<open>The \<open>dispatch!\<close> macro forwards every call of the client connections.\<close>

primrec dispatch_blocking :: "('conn \<Rightarrow> 'r) \<Rightarrow> 'conn blocking_client_connection \<Rightarrow> 'r" where
  "dispatch_blocking f (BlockingQuic this) = f this"

primrec dispatch_nonblocking ::
  "('conn \<Rightarrow> send_result outcome) \<Rightarrow> 'conn nonblocking_client_connection \<Rightarrow> send_result outcome" where
  "dispatch_nonblocking f (NonblockingQuic cache) =
     (case f cache of Return (Inr u) \<Rightarrow> Return (Inr ()) | r \<Rightarrow> r)"

section \<open>The client over its cache\<close>

text \<open>
  \<open>TpuClient::new\<close>: a connection cache with the default options, then the wrapper over it. The
  client keeps the external cache; it is returned beside the client here.
\<close>

definition tpu_client_new ::
  "('kp \<Rightarrow> bytes \<times> bytes) \<Rightarrow> 'kp \<Rightarrow> 'kp \<Rightarrow> 'ip
    \<Rightarrow> (string \<Rightarrow> quic_connection_manager \<Rightarrow> nat \<Rightarrow> string + 'cache) \<Rightarrow> string
    \<Rightarrow> nat \<Rightarrow> sdk \<Rightarrow> 'w rpc_env \<Rightarrow> (string \<Rightarrow> 'pe option) \<Rightarrow> string \<Rightarrow> tpu_client_config \<Rightarrow> 'w
    \<Rightarrow> (('pe tpu_sender_error + tpu_client \<times> 'cache) outcome \<times> 'w) option" where
  "tpu_client_new mk fresh keypair ip backend_new name fuel k env pubsub_result websocket_url config w =
     (case new_connection_cache mk fresh keypair ip backend_new name of
        Panic e \<Rightarrow> Some (Panic e, w)
      | Return (Quic cache) \<Rightarrow>
          (case new_tpu_client fuel k env pubsub_result websocket_url config w of
             None \<Rightarrow> None
           | Some (Panic e, w1) \<Rightarrow> Some (Panic e, w1)
           | Some (Return (Inl e), w1) \<Rightarrow> Some (Return (Inl e), w1)
           | Some (Return (Inr t), w1) \<Rightarrow> Some (Return (Inr (t, cache)), w1)))"

section \<open>The contract of a connection pool\<close>

locale connection_pool =
  fixes add :: "'cfg \<Rightarrow> 'addr \<Rightarrow> 'p \<Rightarrow> nat \<times> 'p"
    and size_of :: "'p \<Rightarrow> nat"
    and lookup :: "'p \<Rightarrow> nat \<Rightarrow> 'err + 'c"
    and fresh_entry :: "'addr \<Rightarrow> 'c"
  assumes add_index: "fst (add cfg a p) = size_of p"
    and size_add: "size_of (snd (add cfg a p)) = Suc (size_of p)"
    and lookup_new: "lookup (snd (add cfg a p)) (size_of p) = Inr (fresh_entry a)"
    and lookup_old: "i < size_of p \<Longrightarrow> lookup (snd (add cfg a p)) i = lookup p i"
    and lookup_bad: "size_of p \<le> i \<Longrightarrow> \<exists>e. lookup p i = Inl e"
begin

definition add_all :: "('cfg \<times> 'addr) list \<Rightarrow> 'p \<Rightarrow> 'p" where
  "add_all xs p = fold (\<lambda>(cfg, a) p. snd (add cfg a p)) xs p"

lemma add_all_Nil [simp]: "add_all [] p = p"
  by (simp add: add_all_def)

lemma add_all_snoc: "add_all (xs @ [(cfg, a)]) p = snd (add cfg a (add_all xs p))"
  by (simp add: add_all_def)

lemma size_add_all: "size_of (add_all xs p) = size_of p + length xs"
  by (induction xs rule: rev_induct) (auto simp: add_all_snoc size_add)

lemma lookup_add_all:
  "i < length xs \<Longrightarrow> lookup (add_all xs p) (size_of p + i) = Inr (fresh_entry (snd (xs ! i)))"
proof (induction xs rule: rev_induct)
  case Nil
  then show ?case by simp
next
  case (snoc x xs)
  obtain cfg a where x: "x = (cfg, a)" by (cases x)
  show ?case
  proof (cases "i < length xs")
    case True
    then have "size_of p + i < size_of (add_all xs p)" by (simp add: size_add_all)
    then show ?thesis
      using snoc.IH[OF True] True by (simp add: x add_all_snoc lookup_old nth_append)
  next
    case False
    then have "i = length xs" using snoc.prems by simp
    then show ?thesis
      using lookup_new[of cfg a "add_all xs p"] by (simp add: x add_all_snoc size_add_all)
  qed
qed

lemma lookup_add_all_old:
  "i < size_of p \<Longrightarrow> lookup (add_all xs p) i = lookup p i"
  by (induction xs rule: rev_induct) (auto simp: add_all_snoc lookup_old size_add_all)

end

interpretation qpool: connection_pool add_connection num_connections pool_get new_quic_client
  by unfold_locales
     (auto simp: add_connection_def num_connections_def pool_get_def create_pool_entry_def nth_append Let_def)

section \<open>Connection operations over the QUIC client\<close>

text \<open>
  The state of the external cache as far as the sends see it: the pools, the connections it has
  handed out, by number, as pool and index, and the world. How it picks a connection for an
  address is its own business and a parameter.
\<close>

record 'w cache_world =
  cw_pools :: "quic_pool list"
  cw_handles :: "(nat \<times> nat) list"
  cw_world :: 'w

definition client_state :: "'w cache_world \<Rightarrow> nat \<Rightarrow> 'w quic_state" where
  "client_state cw h =
     (let (i, j) = cw_handles cw ! h; pool = cw_pools cw ! i
      in \<lparr>qs_endpoint = pool_endpoint pool, qs_client = pool_connections pool ! j, qs_world = cw_world cw\<rparr>)"

definition store_client :: "'w cache_world \<Rightarrow> nat \<Rightarrow> 'w quic_state \<Rightarrow> 'w cache_world" where
  "store_client cw h s =
     (let (i, j) = cw_handles cw ! h; pool = cw_pools cw ! i
      in cw\<lparr>cw_pools := (cw_pools cw)[i := pool\<lparr>
               pool_connections := (pool_connections pool)[j := qs_client s],
               pool_endpoint := qs_endpoint s\<rparr>],
            cw_world := qs_world s\<rparr>)"

text \<open>
  The sends run with four turns of fuel, which is enough where no other task disturbs them
  (\<open>send_buffer_loop_returns\<close>).
\<close>

definition quic_conn_ops ::
  "'w quinn \<Rightarrow> (quic_error \<Rightarrow> string) \<Rightarrow> (client_error_kind \<Rightarrow> transport_error)
    \<Rightarrow> (socket_addr \<Rightarrow> 'w cache_world \<Rightarrow> nat \<times> 'w cache_world) \<Rightarrow> 'w cache_world conn_ops" where
  "quic_conn_ops q debug conv pick =
     \<lparr>get_nonblocking_connection = pick,
      conn_send_data = (\<lambda>h d cw.
        let (r, s) = the (send_data 4 q debug conv d (client_state cw h)) in (r, store_client cw h s)),
      conn_send_data_batch = (\<lambda>h ds cw.
        let (r, s) = the (send_data_batch 4 q debug conv ds (client_state cw h)) in (r, store_client cw h s))\<rparr>"

text \<open>
  The state of a send is the one of the connection that the pool entry makes, whichever address
  it is asked for.
\<close>

lemma client_state_eq_connection:
  assumes "cw_handles cw ! h = (i, j)" and "pool_get (cw_pools cw ! i) j = Inr client"
  shows "client_state cw h = connection_state
    (new_nonblocking_connection (cw_pools cw ! i) client addr stats) (cw_world cw)"
  using assms
  by (auto simp: client_state_def pool_get_def new_nonblocking_connection_def new_with_client_def
      connection_state_def split: if_splits)

lemma connections_reach_the_entry:
  assumes "i < length xs" and "pool_get (fold (\<lambda>(cfg, a) p. snd (add_connection cfg a p)) xs
      (new_connection_pool m)) i = Inr client"
  shows "server_addr (new_nonblocking_connection pool client addr stats) = snd (xs ! i)
    \<and> blocking_server_addr (new_blocking_connection pool client addr stats) = snd (xs ! i)"
proof -
  have "num_connections (new_connection_pool m) = 0"
    by (simp add: num_connections_def new_connection_pool_def)
  then have "client = new_quic_client (snd (xs ! i))"
    using qpool.lookup_add_all[OF assms(1), of "new_connection_pool m"] assms(2)
    by (simp add: qpool.add_all_def)
  then show ?thesis
    by (simp add: new_nonblocking_connection_def new_blocking_connection_def new_with_client_def
        blocking_new_with_client_def blocking_server_addr_def server_addr_def new_quic_client_def)
qed

lemma world_of_client [simp]:
  "qs_world (client_state cw h) = cw_world cw"
  "cw_world (store_client cw h s) = qs_world s"
  by (simp_all add: client_state_def store_client_def Let_def split: prod.split)

section \<open>Properties\<close>

definition pool_of :: "quic_connection_manager \<Rightarrow> (quic_config \<times> socket_addr) list \<Rightarrow> quic_pool" where
  "pool_of m xs = fold (\<lambda>(cfg, a) p. snd (add_connection cfg a p)) xs (new_connection_pool m)"

lemma pool_of_add_all: "pool_of m xs = qpool.add_all xs (new_connection_pool m)"
  by (simp add: pool_of_def qpool.add_all_def)

lemma pool_of_endpoint: "pool_endpoint (pool_of m xs) = create_lazy_endpoint (connection_config m)"
  by (induction xs rule: rev_induct)
     (auto simp: pool_of_def new_connection_pool_def add_connection_def Let_def)


text \<open>
  Updating the key reaches only pools that are created afterwards: their endpoint presents the
  new certificate, whereas a pool that exists, whatever is added to it later with the updated
  configuration, keeps presenting the old one.
\<close>
lemma key_update_reaches_new_pools_only:
  "client_certificate (pool_endpoint (pool_of (snd (update_key mk key m)) xs)) = dummy_certificate mk key
   \<and> client_certificate (pool_endpoint (snd (add_connection
        (new_connection_config (snd (update_key mk key m))) a (pool_of m xs))))
     = config_certificate (connection_config m)"
  by (simp add: pool_of_endpoint update_key_def update_keypair_def create_lazy_endpoint_def
      new_lazy_endpoint_def add_connection_def Let_def)

text \<open>
  The cache wrapper hands its options to the external cache unchanged but for the pool size,
  which is at least one: the given certificate or else a fresh dummy one, the given endpoint, and
  the stake information; where the external constructor fails it panics.
\<close>
lemma cache_options_reach_the_backend:
  "new_with_client_options mk fresh backend_new name n ep cert_info stake_info =
     (case backend_new name
         \<lparr>connection_config = \<lparr>
            config_certificate = dummy_certificate mk (case cert_info of Some (kp, ip) \<Rightarrow> kp | None \<Rightarrow> fresh),
            maybe_staked_nodes = map_option fst stake_info,
            maybe_client_pubkey = map_option snd stake_info,
            config_endpoint = ep\<rparr>\<rparr>
         (if n = 0 then 1 else n) of
        Inr cache \<Rightarrow> Return (Quic cache)
      | Inl e \<Rightarrow> Panic UnwrapFailed)"
  by (cases ep; cases cert_info; cases stake_info)
     (auto simp: new_with_client_options_def new_quic_config_def update_client_endpoint_def
        update_client_certificate_def set_staked_nodes_def new_with_connection_config_def Let_def
        max_def split: sum.split)

end
