(* ===== verification/Server.thy ===== *)
theory Server
  imports Quic_Pool
begin

text \<open>
  The HTTP handlers of \<open>src/src/main.rs\<close>: the single-transaction and the batch handler with their
  retry loops, the response they build, and the start-up of the server. Each attempt calls the
  wrapper client of \<open>Tpu_Client\<close> on the state that the background tasks have given the shared
  client by then. Logging is not modelled; base64 decoding, the rendering of errors, the clock
  and the timer are fields of the parameter \<open>server_env\<close>.
\<close>

section \<open>Environment, requests and responses\<close>

record 'w server_env =
  srv_sdk :: sdk
  srv_profile :: profile
  srv_conn :: "'w conn_ops"
  srv_client :: "'w \<Rightarrow> tpu_client"
  srv_order :: "'w \<Rightarrow> nat list"
  srv_decode :: "bytes \<Rightarrow> bytes option"
  srv_display :: "transport_error \<Rightarrow> string"
  srv_debug :: "transport_error \<Rightarrow> string"
  srv_now_ms :: "'w \<Rightarrow> nat"
  srv_sleep :: "nat \<Rightarrow> 'w \<Rightarrow> 'w"

record transaction_request =
  txn :: bytes

record transactions_request =
  txns :: "bytes list"

record transaction_response =
  resp_status :: string
  resp_error :: "string option"
  processing_time_ms :: u64
  resp_attempts :: u32

record http_response =
  status_code :: nat
  body :: transaction_response

definition MAX_RETRIES :: u32 where
  "MAX_RETRIES = 10"

definition INITIAL_RETRY_DELAY_MS :: nat where
  "INITIAL_RETRY_DELAY_MS = 100"

definition attempt_txn :: "'w server_env \<Rightarrow> bytes \<Rightarrow> 'w \<Rightarrow> send_result outcome \<times> 'w" where
  "attempt_txn env payload w =
     tpu_try_send_wire_transaction (srv_sdk env) (srv_profile env) (srv_conn env) (srv_order env w)
       (srv_client env w) payload w"

definition attempt_batch :: "'w server_env \<Rightarrow> bytes list \<Rightarrow> 'w \<Rightarrow> send_result outcome \<times> 'w" where
  "attempt_batch env batch w =
     tpu_try_send_wire_transaction_batch (srv_sdk env) (srv_profile env) (srv_conn env)
       (srv_order env w) (srv_client env w) batch w"

definition elapsed_ms :: "'w server_env \<Rightarrow> nat \<Rightarrow> 'w \<Rightarrow> u64" where
  "elapsed_ms env start w = of_nat (srv_now_ms env w - start)"

section \<open>One transaction\<close>

lemma next_attempt:
  assumes "(attempt :: u32) < MAX_RETRIES"
  shows "unat (attempt + 1) = Suc (unat attempt)"
proof -
  have "unat attempt < 10" using assms by (simp add: MAX_RETRIES_def word_less_nat_alt)
  then show ?thesis using unat_add_fits[of attempt 1] by simp
qed

text \<open>
  The \<open>while\<close> loop of \<open>handle_transaction\<close>: \<open>Inr attempt\<close> leaves it with a success,
  \<open>Inl\<close> with the last error. The increment cannot overflow below \<open>MAX_RETRIES\<close>. The payload is
  decoded anew in every attempt; an undecodable one is replaced by the empty vector. Nothing
  is awaited between two attempts.
\<close>

function transaction_loop ::
  "'w server_env \<Rightarrow> bytes \<Rightarrow> u32 \<Rightarrow> transport_error option \<Rightarrow> 'w
    \<Rightarrow> (transport_error option \<times> u32 + u32) outcome \<times> 'w" where
  "transaction_loop env data attempt last_error w =
     (if attempt < MAX_RETRIES then
        (case attempt_txn env (case srv_decode env data of Some d \<Rightarrow> d | None \<Rightarrow> []) w of
           (Panic e, w1) \<Rightarrow> (Panic e, w1)
         | (Return (Inr u), w1) \<Rightarrow> (Return (Inr (attempt + 1)), w1)
         | (Return (Inl err), w1) \<Rightarrow> transaction_loop env data (attempt + 1) (Some err) w1)
      else (Return (Inl (last_error, attempt)), w))"
  by auto
termination
  by (relation "measure (\<lambda>(env, data, attempt, last_error, w). 10 - unat attempt)")
     (auto simp: next_attempt, simp add: MAX_RETRIES_def word_less_nat_alt)

declare transaction_loop.simps [simp del]

definition handle_transaction ::
  "'w server_env \<Rightarrow> transaction_request \<Rightarrow> 'w \<Rightarrow> http_response outcome \<times> 'w" where
  "handle_transaction env request w =
     (let start_time = srv_now_ms env w
      in case transaction_loop env (txn request) 0 None w of
           (Panic e, w1) \<Rightarrow> (Panic e, w1)
         | (Return (Inr attempt), w1) \<Rightarrow>
             (Return \<lparr>status_code = 200, body = \<lparr>resp_status = ''success'', resp_error = None,
                processing_time_ms = elapsed_ms env start_time w1, resp_attempts = attempt\<rparr>\<rparr>, w1)
         | (Return (Inl (last_error, attempt)), w1) \<Rightarrow>
             (Return \<lparr>status_code = 500, body = \<lparr>resp_status = ''error'',
                resp_error = map_option (srv_display env) last_error,
                processing_time_ms = elapsed_ms env start_time w1, resp_attempts = attempt\<rparr>\<rparr>, w1))"

section \<open>Batches\<close>

text \<open>\<open>chunks\<close> of a slice, for a positive size.\<close>

function chunks_of :: "nat \<Rightarrow> 'a list \<Rightarrow> 'a list list" where
  "chunks_of n xs = (if n = 0 \<or> xs = [] then [] else take n xs # chunks_of n (drop n xs))"
  by auto
termination
  by (relation "measure (\<lambda>(n, xs). length xs)") auto

declare chunks_of.simps [simp del]

fun decimal :: "nat \<Rightarrow> string" where
  "decimal n = (if n < 10 then [char_of (48 + n)] else decimal (n div 10) @ [char_of (48 + n mod 10)])"

declare decimal.simps [simp del]

text \<open>Rust's \<open>Debug\<close> of an option, and the message of a failed batch.\<close>

definition debug_option :: "('a \<Rightarrow> string) \<Rightarrow> 'a option \<Rightarrow> string" where
  "debug_option debug m = (case m of None \<Rightarrow> ''None'' | Some x \<Rightarrow> ''Some('' @ debug x @ '')'')"

definition batch_error :: "'w server_env \<Rightarrow> nat \<Rightarrow> u32 \<Rightarrow> transport_error option \<Rightarrow> string" where
  "batch_error env batch_index batch_attempt last_error =
     ''Batch '' @ decimal batch_index @ '' failed after '' @ decimal (unat batch_attempt)
       @ '' attempts: '' @ debug_option (srv_debug env) last_error"

text \<open>
  The inner \<open>while\<close> loop for one batch: \<open>Inr\<close> carries on with the next batch, \<open>Inl\<close> returns the
  error response. The overall counter is never bounded, so its increment may overflow.
\<close>

function batch_loop ::
  "'w server_env \<Rightarrow> bytes list \<Rightarrow> u32 \<Rightarrow> u32 \<Rightarrow> transport_error option \<Rightarrow> 'w
    \<Rightarrow> (u32 \<times> u32 \<times> transport_error option + u32 \<times> transport_error option) outcome \<times> 'w" where
  "batch_loop env batch batch_attempt overall_attempt last_error w =
     (if batch_attempt < MAX_RETRIES then
        (case add_w (srv_profile env) overall_attempt 1 of
           Panic e \<Rightarrow> (Panic e, w)
         | Return overall \<Rightarrow>
             (case attempt_batch env batch w of
                (Panic e, w1) \<Rightarrow> (Panic e, w1)
              | (Return (Inr u), w1) \<Rightarrow> (Return (Inr (overall, last_error)), w1)
              | (Return (Inl err), w1) \<Rightarrow>
                  if batch_attempt + 1 < MAX_RETRIES then
                    batch_loop env batch (batch_attempt + 1) overall (Some err)
                      (srv_sleep env INITIAL_RETRY_DELAY_MS w1)
                  else (Return (Inl (batch_attempt + 1, overall, Some err)), w1)))
      else (Return (Inr (overall_attempt, last_error)), w))"
  by auto
termination
  by (relation "measure (\<lambda>(env, batch, batch_attempt, overall, last_error, w). 10 - unat batch_attempt)")
     (auto simp: next_attempt, simp add: MAX_RETRIES_def word_less_nat_alt)

declare batch_loop.simps [simp del]

text \<open>The \<open>for\<close> loop over the batches with their indices.\<close>

fun batches_loop ::
  "'w server_env \<Rightarrow> nat \<Rightarrow> nat \<Rightarrow> bytes list list \<Rightarrow> u32 \<Rightarrow> transport_error option \<Rightarrow> 'w
    \<Rightarrow> http_response outcome \<times> 'w" where
  "batches_loop env start_time batch_index [] overall_attempt last_error w =
     (Return \<lparr>status_code = 200, body = \<lparr>resp_status = ''success'', resp_error = None,
        processing_time_ms = elapsed_ms env start_time w, resp_attempts = overall_attempt\<rparr>\<rparr>, w)"
| "batches_loop env start_time batch_index (batch # rest) overall_attempt last_error w =
     (case batch_loop env batch 0 overall_attempt last_error w of
        (Panic e, w1) \<Rightarrow> (Panic e, w1)
      | (Return (Inr (overall, err)), w1) \<Rightarrow>
          batches_loop env start_time (Suc batch_index) rest overall err w1
      | (Return (Inl (batch_attempt, overall, err)), w1) \<Rightarrow>
          (Return \<lparr>status_code = 500, body = \<lparr>resp_status = ''error'',
             resp_error = Some (batch_error env batch_index batch_attempt err),
             processing_time_ms = elapsed_ms env start_time w1, resp_attempts = overall\<rparr>\<rparr>, w1))"

definition handle_transactions_batched ::
  "'w server_env \<Rightarrow> transactions_request \<Rightarrow> 'w \<Rightarrow> http_response outcome \<times> 'w" where
  "handle_transactions_batched env request w =
     batches_loop env (srv_now_ms env w) 0
       (chunks_of 10 (List.map_filter (srv_decode env) (txns request))) 0 None w"

section \<open>The clock page and the routes\<close>

text \<open>\<open>get_time\<close> answers with the local time as text, under the key \<open>time\<close>.\<close>

definition get_time :: "('w \<Rightarrow> string) \<Rightarrow> 'w \<Rightarrow> (string \<times> string) list" where
  "get_time local_now_rfc3339 w = [(''time'', local_now_rfc3339 w)]"

datatype http_method = GET | POST

datatype http_handler = GetTime | HandleTransaction | HandleTransactionsBatched

definition routes :: "(string \<times> http_method \<times> http_handler) list" where
  "routes = [(''/'', GET, GetTime), (''/send_txn'', POST, HandleTransaction),
     (''/send_batch'', POST, HandleTransactionsBatched)]"

section \<open>Start-up\<close>

text \<open>
  \<open>main\<close> up to the accept loop: the environment variables are read with \<open>expect\<close>, the client is
  built, its error being another \<open>expect\<close>, and the listener is bound to a fixed address.
\<close>

record ('kp, 'ip, 'cache, 'pe, 'w) startup_env =
  st_sdk :: sdk
  st_getenv :: "string \<Rightarrow> string option"
  st_crypto_installed :: bool
  st_certificate :: "'kp \<Rightarrow> bytes \<times> bytes"
  st_fresh_keypair :: 'kp
  st_client_keypair :: 'kp
  st_unspecified_ip :: 'ip
  st_backend_new :: "string \<Rightarrow> quic_connection_manager \<Rightarrow> nat \<Rightarrow> string + 'cache"
  st_rpc_client :: "string \<Rightarrow> 'w rpc_env"
  st_pubsub :: "string \<Rightarrow> 'pe option"
  st_can_bind :: "string \<Rightarrow> bool"

definition start_server ::
  "nat \<Rightarrow> ('kp, 'ip, 'cache, 'pe, 'w) startup_env \<Rightarrow> 'w
    \<Rightarrow> ((tpu_client \<times> 'cache) outcome \<times> 'w) option" where
  "start_server fuel st w =
     (if \<not> st_crypto_installed st then Some (Panic UnwrapFailed, w)
      else case st_getenv st ''RPC_URL'' of None \<Rightarrow> Some (Panic UnwrapFailed, w) | Some rpc_url \<Rightarrow>
      case st_getenv st ''WS_URL'' of None \<Rightarrow> Some (Panic UnwrapFailed, w) | Some ws_url \<Rightarrow>
      case tpu_client_new (st_certificate st) (st_fresh_keypair st) (st_client_keypair st)
             (st_unspecified_ip st) (st_backend_new st) ''tpu'' fuel (st_sdk st)
             (st_rpc_client st rpc_url) (st_pubsub st) ws_url default_config w of
        None \<Rightarrow> None
      | Some (Panic e, w1) \<Rightarrow> Some (Panic e, w1)
      | Some (Return (Inl e), w1) \<Rightarrow> Some (Panic UnwrapFailed, w1)
      | Some (Return (Inr t), w1) \<Rightarrow>
          if st_can_bind st ''127.0.0.1:3001'' then Some (Return t, w1)
          else Some (Panic UnwrapFailed, w1))"

section \<open>Specification: bounded retries\<close>

text \<open>
  \<open>retry n send pause\<close> attempts at most \<open>n\<close> sends, stops at the first success and pauses
  between two attempts; it returns the results of all attempts made.
\<close>

fun retry ::
  "nat \<Rightarrow> ('w \<Rightarrow> send_result outcome \<times> 'w) \<Rightarrow> ('w \<Rightarrow> 'w) \<Rightarrow> 'w \<Rightarrow> send_result list outcome \<times> 'w" where
  "retry 0 send pause w = (Return [], w)"
| "retry (Suc n) send pause w =
     (case send w of
        (Panic e, w1) \<Rightarrow> (Panic e, w1)
      | (Return (Inr u), w1) \<Rightarrow> (Return [Inr ()], w1)
      | (Return (Inl err), w1) \<Rightarrow>
          (case retry n send pause (if n = 0 then w1 else pause w1) of
             (Panic e, w2) \<Rightarrow> (Panic e, w2)
           | (Return rs, w2) \<Rightarrow> (Return (Inl err # rs), w2)))"

definition attempts_ok :: "nat \<Rightarrow> send_result list \<Rightarrow> bool" where
  "attempts_ok n rs \<longleftrightarrow> rs \<noteq> [] \<and> length rs \<le> n \<and> Inr () \<notin> set (butlast rs)
     \<and> (last rs = Inr () \<or> length rs = n)"

definition last_err :: "transport_error option \<Rightarrow> send_result list \<Rightarrow> transport_error option" where
  "last_err last_error rs =
     fold (\<lambda>r le. case r of Inl e \<Rightarrow> Some e | Inr u \<Rightarrow> le) rs last_error"

lemma last_err_simps [simp]:
  "last_err le [] = le"
  "last_err le (Inl e # rs) = last_err (Some e) rs"
  "last_err le (Inr u # rs) = last_err le rs"
  by (simp_all add: last_err_def)

lemma last_err_of_last: "rs \<noteq> [] \<Longrightarrow> last rs = Inl e \<Longrightarrow> last_err le rs = Some e"
  by (induction rs rule: rev_induct) (auto simp: last_err_def)

lemma retry_ok: "retry n send pause w = (Return rs, w') \<Longrightarrow> 0 < n \<Longrightarrow> attempts_ok n rs"
proof (induction n arbitrary: w rs)
  case 0
  then show ?case by simp
next
  case (Suc n)
  obtain r w1 where s: "send w = (Return r, w1)"
    using Suc.prems by (auto split: prod.splits outcome.splits)
  show ?case
  proof (cases r)
    case (Inr u)
    then show ?thesis using Suc.prems s by (auto simp: attempts_ok_def)
  next
    case (Inl e)
    then obtain rs' where r: "rs = Inl e # rs'"
      and r': "retry n send pause (if n = 0 then w1 else pause w1) = (Return rs', w')"
      using Suc.prems s by (auto split: prod.splits outcome.splits)
    show ?thesis
    proof (cases "n = 0")
      case True
      then show ?thesis using r r' by (simp add: attempts_ok_def)
    next
      case False
      then show ?thesis using Suc.IH[OF r'] r by (auto simp: attempts_ok_def)
    qed
  qed
qed

definition no_panic :: "('w \<Rightarrow> 'a outcome \<times> 'w) \<Rightarrow> bool" where
  "no_panic f \<longleftrightarrow> (\<forall>w. \<exists>r w'. f w = (Return r, w'))"

lemma no_panicD: "no_panic f \<Longrightarrow> \<exists>r w'. f w = (Return r, w')"
  by (simp add: no_panic_def)

lemma retry_no_panic: "no_panic send \<Longrightarrow> \<exists>rs w'. retry n send pause w = (Return rs, w')"
proof (induction n arbitrary: w)
  case 0
  then show ?case by simp
next
  case (Suc n)
  obtain r w1 where s: "send w = (Return r, w1)" using no_panicD[OF Suc.prems] by blast
  obtain rs w' where "retry n send pause (if n = 0 then w1 else pause w1) = (Return rs, w')"
    using Suc.IH[OF Suc.prems] by blast
  then show ?case using s by (cases r) auto
qed

text \<open>
  The contract of a retry loop over an operation \<open>send\<close>: its result is a verdict on the results
  of the attempts that \<open>retry\<close> makes.
\<close>

locale bounded_retry =
  fixes run :: "'w \<Rightarrow> 'r outcome \<times> 'w"
    and limit :: nat
    and send :: "'w \<Rightarrow> send_result outcome \<times> 'w"
    and pause :: "'w \<Rightarrow> 'w"
    and verdict :: "send_result list \<Rightarrow> 'r"
  assumes limit_pos: "0 < limit"
    and run_attempts: "run w = (Return r, w') \<Longrightarrow>
      \<exists>rs. retry limit send pause w = (Return rs, w') \<and> r = verdict rs"
begin

lemma run_ok:
  assumes "run w = (Return r, w')"
  shows "\<exists>rs. retry limit send pause w = (Return rs, w') \<and> attempts_ok limit rs \<and> r = verdict rs"
proof -
  obtain rs where r: "retry limit send pause w = (Return rs, w')" "r = verdict rs"
    using run_attempts[OF assms] by (elim exE conjE)
  then show ?thesis using retry_ok[OF r(1) limit_pos] by (intro exI[of _ rs]) simp
qed

lemma first_success_ends:
  assumes "run w = (Return r, w')" and "send w = (Return (Inr ()), w1)"
  shows "r = verdict [Inr ()] \<and> w' = w1"
  using run_attempts[OF assms(1)] assms(2) limit_pos by (cases limit) auto

end

section \<open>The two loops meet it\<close>

definition txn_payload :: "'w server_env \<Rightarrow> bytes \<Rightarrow> bytes" where
  "txn_payload env data = (case srv_decode env data of Some d \<Rightarrow> d | None \<Rightarrow> [])"

definition txn_verdict ::
  "u32 \<Rightarrow> transport_error option \<Rightarrow> send_result list \<Rightarrow> transport_error option \<times> u32 + u32" where
  "txn_verdict attempt last_error rs =
     (if Inr () \<in> set rs then Inr (attempt + of_nat (length rs))
      else Inl (last_err last_error rs, attempt + of_nat (length rs)))"

lemma below_max: "(attempt :: u32) < MAX_RETRIES \<longleftrightarrow> unat attempt < 10"
  by (simp add: MAX_RETRIES_def word_less_nat_alt)

lemma transaction_loop_step:
  "transaction_loop env data attempt last_error w =
     (if unat attempt < 10 then
        (case attempt_txn env (txn_payload env data) w of
           (Panic e, w1) \<Rightarrow> (Panic e, w1)
         | (Return (Inr u), w1) \<Rightarrow> (Return (Inr (attempt + 1)), w1)
         | (Return (Inl err), w1) \<Rightarrow> transaction_loop env data (attempt + 1) (Some err) w1)
      else (Return (Inl (last_error, attempt)), w))"
  unfolding txn_payload_def below_max[symmetric] by (rule transaction_loop.simps)

lemma txn_verdict_simps [simp]:
  "txn_verdict attempt last_error [] = Inl (last_error, attempt)"
  "txn_verdict attempt last_error [Inr u] = Inr (attempt + 1)"
  "txn_verdict attempt last_error (Inl e # rs) = txn_verdict (attempt + 1) (Some e) rs"
  by (simp_all add: txn_verdict_def add.assoc)

lemma transaction_loop_eq:
  "transaction_loop env data attempt last_error w =
     (case retry (10 - unat attempt) (attempt_txn env (txn_payload env data)) id w of
        (Panic e, w') \<Rightarrow> (Panic e, w')
      | (Return rs, w') \<Rightarrow> (Return (txn_verdict attempt last_error rs), w'))"
proof (induction "10 - unat attempt" arbitrary: attempt last_error w)
  case 0
  then show ?case by (subst transaction_loop_step) simp
next
  case (Suc n)
  have lt: "unat attempt < 10" and m: "n = 10 - unat (attempt + 1)"
    using Suc(2) next_attempt[of attempt] by (auto simp: below_max)
  note IH = Suc(1)[OF m]
  show ?case
    unfolding Suc(2)[symmetric]
    by (rule trans[OF transaction_loop_step])
       (use lt IH m in \<open>simp split: prod.split outcome.split sum.split\<close>)
qed

interpretation txn_retry: bounded_retry "\<lambda>w. transaction_loop env data 0 None w" 10
    "attempt_txn env (txn_payload env data)" id "txn_verdict 0 None"
  for env data
  by unfold_locales (auto simp: transaction_loop_eq split: prod.splits outcome.splits)

definition batch_verdict ::
  "u32 \<Rightarrow> u32 \<Rightarrow> transport_error option \<Rightarrow> send_result list
    \<Rightarrow> u32 \<times> u32 \<times> transport_error option + u32 \<times> transport_error option" where
  "batch_verdict batch_attempt overall last_error rs =
     (if Inr () \<in> set rs then Inr (overall + of_nat (length rs), last_err last_error rs)
      else Inl (batch_attempt + of_nat (length rs), overall + of_nat (length rs),
             last_err last_error rs))"

lemma batch_verdict_simps [simp]:
  "batch_verdict a overall le [Inr u] = Inr (overall + 1, le)"
  "batch_verdict a overall le (Inl e # rs) = batch_verdict (a + 1) (overall + 1) (Some e) rs"
  by (simp_all add: batch_verdict_def add.assoc)

lemma batch_loop_step:
  assumes "unat batch_attempt < 10"
  shows "batch_loop env batch batch_attempt overall le w =
     (case add_w (srv_profile env) overall 1 of
           Panic e \<Rightarrow> (Panic e, w)
         | Return overall \<Rightarrow>
             (case attempt_batch env batch w of
                (Panic e, w1) \<Rightarrow> (Panic e, w1)
              | (Return (Inr u), w1) \<Rightarrow> (Return (Inr (overall, le)), w1)
              | (Return (Inl err), w1) \<Rightarrow>
                  if unat batch_attempt < 9 then
                    batch_loop env batch (batch_attempt + 1) overall (Some err)
                      (srv_sleep env INITIAL_RETRY_DELAY_MS w1)
                  else (Return (Inl (batch_attempt + 1, overall, Some err)), w1)))"
proof -
  have "batch_attempt + 1 < MAX_RETRIES \<longleftrightarrow> unat batch_attempt < 9"
    using assms next_attempt[of batch_attempt] by (simp add: below_max)
  moreover have "batch_attempt < MAX_RETRIES" using assms by (simp add: below_max)
  ultimately show ?thesis by (subst batch_loop.simps) (simp only: if_True)
qed

lemma batch_loop_attempts:
  assumes "unat batch_attempt < 10"
    and "batch_loop env batch batch_attempt overall le w = (Return r, w')"
  shows "\<exists>rs. retry (10 - unat batch_attempt) (attempt_batch env batch)
        (srv_sleep env INITIAL_RETRY_DELAY_MS) w = (Return rs, w')
    \<and> r = batch_verdict batch_attempt overall le rs"
  using assms
proof (induction "9 - unat batch_attempt" arbitrary: batch_attempt overall le w)
  case 0
  obtain x w1 where "attempt_batch env batch w = (Return x, w1)"
    using 0(2,3) by (auto simp: batch_loop_step split: outcome.splits prod.splits)
  moreover have "10 - unat batch_attempt = Suc 0" using 0(1,2) by simp
  moreover have "add_w (srv_profile env) overall 1 = Return (overall + 1)"
    using 0(2,3) by (auto simp: batch_loop_step add_w_def split: outcome.splits if_splits)
  moreover have "\<not> unat batch_attempt < 9" using 0(1) by simp
  ultimately show ?case
    using 0(2,3) by (cases x) (auto simp: batch_loop_step batch_verdict_def)
next
  case (Suc n)
  have a: "unat (batch_attempt + 1) = Suc (unat batch_attempt)"
    using next_attempt[of batch_attempt] Suc(3) by (simp add: below_max)
  have lt: "unat batch_attempt < 9" using Suc(2) by simp
  obtain x w1 where x: "attempt_batch env batch w = (Return x, w1)"
    using Suc(3,4) by (auto simp: batch_loop_step split: outcome.splits prod.splits)
  have o: "add_w (srv_profile env) overall 1 = Return (overall + 1)"
    using Suc(3,4) by (auto simp: batch_loop_step add_w_def split: outcome.splits if_splits)
  have m: "10 - unat batch_attempt = Suc (10 - unat (batch_attempt + 1))"
    and pos: "10 - unat (batch_attempt + 1) \<noteq> 0" using a lt by simp_all
  show ?case
  proof (cases x)
    case (Inr u)
    then show ?thesis using Suc(3,4) x o m by (auto simp: batch_loop_step)
  next
    case (Inl e)
    then have l: "batch_loop env batch (batch_attempt + 1) (overall + 1) (Some e)
        (srv_sleep env INITIAL_RETRY_DELAY_MS w1) = (Return r, w')"
      using Suc(3,4) x o lt by (simp add: batch_loop_step)
    have n: "n = 9 - unat (batch_attempt + 1)" and b: "unat (batch_attempt + 1) < 10"
      using Suc(2) a lt by simp_all
    from Suc(1)[OF n b l] obtain rs where
        "retry (10 - unat (batch_attempt + 1)) (attempt_batch env batch)
          (srv_sleep env INITIAL_RETRY_DELAY_MS) (srv_sleep env INITIAL_RETRY_DELAY_MS w1) = (Return rs, w')"
        "r = batch_verdict (batch_attempt + 1) (overall + 1) (Some e) rs" by blast
    then show ?thesis
      unfolding m using x Inl pos by (intro exI[of _ "Inl e # rs"]) simp
  qed
qed

interpretation batch_retry: bounded_retry "\<lambda>w. batch_loop env batch 0 overall le w" 10
    "attempt_batch env batch" "srv_sleep env INITIAL_RETRY_DELAY_MS" "batch_verdict 0 overall le"
  for env batch overall le
  by unfold_locales (simp, use batch_loop_attempts[of 0] in simp)

lemma batch_loop_no_panic:
  assumes "no_panic (attempt_batch env batch)" and "unat batch_attempt < 10"
    and "srv_profile env = Wrapping \<or> unat overall + (10 - unat batch_attempt) < 2 ^ 32"
  shows "\<exists>r w'. batch_loop env batch batch_attempt overall le w = (Return r, w')"
  using assms(2,3)
proof (induction "9 - unat batch_attempt" arbitrary: batch_attempt overall le w)
  case 0
  obtain x w1 where "attempt_batch env batch w = (Return x, w1)"
    using no_panicD[OF assms(1)] by blast
  moreover have "add_w (srv_profile env) overall 1 = Return (overall + 1)"
    using 0(2,3) by (auto simp: add_w_def)
  ultimately show ?case
    using 0(1,2) by (cases x) (simp_all add: batch_loop_step)
next
  case (Suc n)
  have a: "unat (batch_attempt + 1) = Suc (unat batch_attempt)"
    using next_attempt[of batch_attempt] Suc(3) by (simp add: below_max)
  obtain x w1 where x: "attempt_batch env batch w = (Return x, w1)"
    using no_panicD[OF assms(1)] by blast
  have o: "add_w (srv_profile env) overall 1 = Return (overall + 1)"
    using Suc(3,4) by (auto simp: add_w_def)
  have n: "n = 9 - unat (batch_attempt + 1)" and b: "unat (batch_attempt + 1) < 10"
    using Suc(2) a by simp_all
  have "unat (overall + 1) = Suc (unat overall)" if "srv_profile env \<noteq> Wrapping"
    using unat_add_fits[of overall 1] Suc(3,4) that by simp
  then have "srv_profile env = Wrapping \<or> unat (overall + 1) + (10 - unat (batch_attempt + 1)) < 2 ^ 32"
    using Suc(3,4) a by (cases "srv_profile env = Wrapping") auto
  from Suc(1)[OF n b this] show ?case
    using x o Suc(3) by (cases x) (simp_all add: batch_loop_step)
qed

section \<open>Specification: a run over batches\<close>

text \<open>
  \<open>batch_run env batches w rss w'\<close>: the batches are attempted one after the other from \<open>w\<close>, each
  with a bounded retry that pauses 100 ms between attempts; the run stops at the first batch
  that is given up. \<open>rss\<close> holds the results of the attempts, batch by batch.
\<close>

inductive batch_run ::
  "'w server_env \<Rightarrow> bytes list list \<Rightarrow> 'w \<Rightarrow> send_result list list \<Rightarrow> 'w \<Rightarrow> bool"
  for env where
  all_sent: "batch_run env [] w [] w"
| given_up: "retry 10 (attempt_batch env b) (srv_sleep env INITIAL_RETRY_DELAY_MS) w = (Return rs, w1)
    \<Longrightarrow> attempts_ok 10 rs \<Longrightarrow> Inr () \<notin> set rs \<Longrightarrow> batch_run env (b # bs) w [rs] w1"
| sent: "retry 10 (attempt_batch env b) (srv_sleep env INITIAL_RETRY_DELAY_MS) w = (Return rs, w1)
    \<Longrightarrow> attempts_ok 10 rs \<Longrightarrow> Inr () \<in> set rs \<Longrightarrow> batch_run env bs w1 rss w2
    \<Longrightarrow> batch_run env (b # bs) w (rs # rss) w2"

inductive_cases batch_run_NilE: "batch_run env [] w rss w'"
inductive_cases batch_run_ConsE: "batch_run env (b # bs) w rss w'"
inductive_simps batch_run_Nil [simp]: "batch_run env [] w rss w'"

lemma attempts_ok_given_up:
  assumes "attempts_ok n rs" and "Inr () \<notin> set rs"
  shows "length rs = n" and "\<exists>e. last rs = Inl e"
proof -
  have ne: "rs \<noteq> []" using assms(1) by (simp add: attempts_ok_def)
  then have "last rs \<in> set rs" by (rule last_in_set)
  then have "last rs \<noteq> Inr ()" using assms(2) by metis
  then show "length rs = n" using assms(1) by (simp add: attempts_ok_def)
  show "\<exists>e. last rs = Inl e" using \<open>last rs \<noteq> Inr ()\<close> by (cases "last rs") auto
qed

lemma batch_run_shape:
  "batch_run env bs w rss w' \<Longrightarrow>
     length rss \<le> length bs
   \<and> (\<forall>rs \<in> set rss. attempts_ok 10 rs)
   \<and> (\<forall>rs \<in> set (butlast rss). Inr () \<in> set rs)
   \<and> (length rss < length bs \<longrightarrow> rss \<noteq> [] \<and> Inr () \<notin> set (last rss))"
proof (induction rule: batch_run.induct)
  case (all_sent w)
  then show ?case by simp
next
  case (given_up b w rs w1 bs)
  then show ?case by simp
next
  case (sent b w rs w1 bs rss w2)
  then show ?case by auto
qed

definition run_failed :: "send_result list list \<Rightarrow> bool" where
  "run_failed rss \<longleftrightarrow> rss \<noteq> [] \<and> Inr () \<notin> set (last rss)"

definition run_attempts_total :: "send_result list list \<Rightarrow> nat" where
  "run_attempts_total rss = sum_list (map length rss)"

definition batch_response ::
  "'w server_env \<Rightarrow> nat \<Rightarrow> nat \<Rightarrow> u32 \<Rightarrow> send_result list list \<Rightarrow> 'w \<Rightarrow> http_response" where
  "batch_response env start_time batch_index overall rss w' =
     \<lparr>status_code = (if run_failed rss then 500 else 200),
      body = \<lparr>resp_status = (if run_failed rss then ''error'' else ''success''),
        resp_error = (if run_failed rss
          then Some (batch_error env (batch_index + length rss - 1) 10 (last_err None (last rss)))
          else None),
        processing_time_ms = elapsed_ms env start_time w',
        resp_attempts = overall + of_nat (run_attempts_total rss)\<rparr>\<rparr>"

lemma batch_response_Cons:
  assumes "Inr () \<in> set rs"
  shows "batch_response env st (Suc i) (overall + of_nat (length rs)) rss w' =
    batch_response env st i overall (rs # rss) w'"
  using assms by (auto simp: batch_response_def run_failed_def run_attempts_total_def add.assoc)

lemma batch_response_given_up:
  assumes "attempts_ok 10 rs" and "Inr () \<notin> set rs"
  shows "\<lparr>status_code = 500, body = \<lparr>resp_status = ''error'',
             resp_error = Some (batch_error env i (0 + of_nat (length rs)) (last_err le rs)),
             processing_time_ms = elapsed_ms env st w', resp_attempts = overall + of_nat (length rs)\<rparr>\<rparr>
    = batch_response env st i overall [rs] w'"
proof -
  obtain e where "last rs = Inl e" using attempts_ok_given_up(2)[OF assms] by blast
  then have "last_err le rs = last_err None rs"
    using assms(1) last_err_of_last[of rs e] by (simp add: attempts_ok_def)
  then show ?thesis
    using assms attempts_ok_given_up(1)[OF assms]
    by (simp add: batch_response_def run_failed_def run_attempts_total_def)
qed

lemma batches_loop_run:
  assumes "batches_loop env st i bs overall le w = (Return resp, w')"
  shows "\<exists>rss. batch_run env bs w rss w' \<and> resp = batch_response env st i overall rss w'"
  using assms
proof (induction bs arbitrary: i overall le w)
  case Nil
  then show ?case by (auto simp: batch_response_def run_failed_def run_attempts_total_def)
next
  case (Cons b bs)
  obtain v w1 where v: "batch_loop env b 0 overall le w = (Return v, w1)"
    using Cons.prems by (auto split: prod.splits outcome.splits)
  obtain rs where rs: "retry 10 (attempt_batch env b) (srv_sleep env INITIAL_RETRY_DELAY_MS) w = (Return rs, w1)"
      "attempts_ok 10 rs" "v = batch_verdict 0 overall le rs"
    using batch_retry.run_ok[OF v] by blast
  show ?case
  proof (cases "Inr () \<in> set rs")
    case True
    then have "batches_loop env st (Suc i) bs (overall + of_nat (length rs)) (last_err le rs) w1
        = (Return resp, w')"
      using Cons.prems v rs(3) by (simp add: batch_verdict_def)
    from Cons.IH[OF this] obtain rss where "batch_run env bs w1 rss w'"
        "resp = batch_response env st i overall (rs # rss) w'"
      using batch_response_Cons[OF True] by metis
    then show ?thesis using batch_run.sent[OF rs(1,2) True] by blast
  next
    case False
    then have "resp = batch_response env st i overall [rs] w1 \<and> w' = w1"
      using Cons.prems v rs(3) batch_response_given_up[OF rs(2) False, of env i le st w1 overall]
      by (auto simp: batch_verdict_def)
    then show ?thesis using batch_run.given_up[OF rs(1,2) False] by blast
  qed
qed

lemma unat_add_of_nat_le: "unat (a + of_nat n :: u32) \<le> unat a + n"
proof -
  have "unat (a + of_nat n) = (unat a + take_bit 32 n) mod 2 ^ 32"
    by (simp add: unat_word_ariths(1) unsigned_of_nat)
  also have "\<dots> \<le> unat a + take_bit 32 n" by (rule mod_less_eq_dividend)
  also have "\<dots> \<le> unat a + n" by (rule add_left_mono) (rule take_bit_nat_less_eq_self)
  finally show ?thesis .
qed

lemma batches_loop_no_panic:
  assumes "\<And>b. no_panic (attempt_batch env b)"
    and "srv_profile env = Wrapping \<or> unat overall + 10 * length bs < 2 ^ 32"
  shows "\<exists>resp w'. batches_loop env st i bs overall le w = (Return resp, w')"
  using assms(2)
proof (induction bs arbitrary: i overall le w)
  case Nil
  then show ?case by simp
next
  case (Cons b bs)
  have room: "srv_profile env = Wrapping \<or> unat overall + 10 < 2 ^ 32"
    using Cons.prems by auto
  obtain v w1 where v: "batch_loop env b 0 overall le w = (Return v, w1)"
    using batch_loop_no_panic[of env b 0 overall le w] assms(1) room by auto
  obtain rs where rs: "attempts_ok 10 rs" "v = batch_verdict 0 overall le rs"
    using batch_retry.run_ok[OF v] by blast
  show ?case
  proof (cases "Inr () \<in> set rs")
    case False
    then show ?thesis using v rs(2) by (simp add: batch_verdict_def)
  next
    case True
    have len: "length rs \<le> 10" using rs(1) by (simp add: attempts_ok_def)
    have "unat (overall + of_nat (length rs)) \<le> unat overall + length rs"
      by (rule unat_add_of_nat_le)
    then have "srv_profile env = Wrapping
        \<or> unat (overall + of_nat (length rs)) + 10 * length bs < 2 ^ 32"
      using Cons.prems len by auto
    from Cons.IH[OF this, of "Suc i" "last_err le rs" w1] show ?thesis
      using v rs(2) True by (simp add: batch_verdict_def)
  qed
qed

section \<open>Chunks\<close>

lemma concat_chunks_of: "0 < n \<Longrightarrow> concat (chunks_of n xs) = xs"
proof (induction n xs rule: chunks_of.induct)
  case (1 n xs)
  then show ?case by (subst chunks_of.simps) auto
qed

lemma chunks_of_sizes: "c \<in> set (chunks_of n xs) \<Longrightarrow> c \<noteq> [] \<and> length c \<le> n"
proof (induction n xs rule: chunks_of.induct)
  case (1 n xs)
  from 1(2) show ?case
    by (subst (asm) chunks_of.simps) (use 1(1) in \<open>auto split: if_splits\<close>)
qed

lemma ceil_div_step: "0 < n \<Longrightarrow> n \<le> m \<Longrightarrow> (m + n - 1) div n = Suc ((m - n + n - 1) div n)"
  using div_add_self2[of n "m - 1"] by (cases m) auto

lemma ceil_div_small: "0 < m \<Longrightarrow> m < n \<Longrightarrow> (m + n - 1) div n = (1 :: nat)"
  using div_add_self2[of n "m - 1"] by (cases m) auto

lemma length_chunks_of: "0 < n \<Longrightarrow> length (chunks_of n xs) = (length xs + n - 1) div n"
proof (induction n xs rule: chunks_of.induct)
  case (1 n xs)
  show ?case
  proof (cases "xs = []")
    case True
    then show ?thesis using 1(2) by (subst chunks_of.simps) simp
  next
    case False
    then have l: "length (chunks_of n xs) = Suc ((length xs - n + n - 1) div n)"
      using 1 by (subst chunks_of.simps) simp
    show ?thesis
    proof (cases "n \<le> length xs")
      case True
      then show ?thesis using l ceil_div_step[OF 1(2)] by simp
    next
      case less: False
      then have "(length xs - n + n - 1) div n = 0" using 1(2) by simp
      then show ?thesis using l ceil_div_small[of "length xs" n] False less by simp
    qed
  qed
qed

section \<open>Panic freedom of an attempt\<close>

text \<open>
  The shared client is in its invariant at every moment, its fanout is the clamped one, and no
  send on a connection panics.
\<close>

definition server_ok :: "'w server_env \<Rightarrow> bool" where
  "server_ok env \<longleftrightarrow>
     0 < num_consecutive_leader_slots (srv_sdk env)
   \<and> (\<forall>w. service_ok (leader_tpu_service (tpu_client (srv_client env w)))
        \<and> fanout_slots (tpu_client (srv_client env w)) \<le> MAX_FANOUT_SLOTS)
   \<and> (\<forall>c d. no_panic (conn_send_data (srv_conn env) c d))
   \<and> (\<forall>c ds. no_panic (conn_send_data_batch (srv_conn env) c ds))"

lemma join_run_no_panic:
  "(\<And>f. f \<in> set futures \<Longrightarrow> no_panic f) \<Longrightarrow> \<exists>rs w'. join_run order futures results w = (Return rs, w')"
proof (induction order arbitrary: results w)
  case Nil
  then show ?case by simp
next
  case (Cons i order)
  show ?case
  proof (cases "i < length futures \<and> results ! i = None")
    case True
    then have "no_panic (futures ! i)" using Cons.prems by simp
    from no_panicD[OF this, of w] obtain r w1 where "(futures ! i) w = (Return r, w1)"
      by (elim exE)
    moreover have "\<exists>rs w'. join_run order futures (results[i := Some r]) w1 = (Return rs, w')"
      using Cons.IH Cons.prems by blast
    ultimately show ?thesis using True by simp
  next
    case False
    have "\<exists>rs w'. join_run order futures results w = (Return rs, w')"
      using Cons.IH Cons.prems by blast
    moreover have "join_run (i # order) futures results w = join_run order futures results w"
      using False by auto
    ultimately show ?thesis by simp
  qed
qed

lemma join_all_no_panic:
  assumes "\<And>f. f \<in> set futures \<Longrightarrow> no_panic f"
  shows "\<exists>rs w'. join_all order futures w = (Return rs, w')"
proof -
  obtain rs w' where "join_run (order @ [0..<length futures]) futures
      (replicate (length futures) None) w = (Return rs, w')"
    using join_run_no_panic[of futures, OF assms] by blast
  then show ?thesis by (simp add: join_all_def)
qed

lemma send_to_addr_no_panic:
  "server_ok env \<Longrightarrow> no_panic (send_wire_transaction_to_addr (srv_conn env) a d)"
  "server_ok env \<Longrightarrow> no_panic (send_wire_transaction_batch_to_addr (srv_conn env) a ds)"
  by (simp_all add: server_ok_def no_panic_def send_wire_transaction_to_addr_def
      send_wire_transaction_batch_to_addr_def split: prod.split)

lemma attempt_no_panic:
  assumes "server_ok env"
  shows "no_panic (attempt_txn env d)" and "no_panic (attempt_batch env ds)"
proof -
  have sockets: "\<exists>addrs. unique_leader_tpu_sockets (srv_sdk env) (srv_profile env)
      (leader_tpu_service (tpu_client (srv_client env w)))
      (fanout_slots (tpu_client (srv_client env w))) = Return addrs" for w
    using service_sockets_total[of "leader_tpu_service (tpu_client (srv_client env w))"
        "srv_sdk env" "fanout_slots (tpu_client (srv_client env w))" "srv_profile env"] assms
    by (auto simp: server_ok_def)
  show "no_panic (attempt_txn env d)"
    unfolding no_panic_def
  proof
    fix w
    obtain addrs where a: "unique_leader_tpu_sockets (srv_sdk env) (srv_profile env)
      (leader_tpu_service (tpu_client (srv_client env w)))
      (fanout_slots (tpu_client (srv_client env w))) = Return addrs" using sockets by blast
    let ?fs = "map (\<lambda>a. send_wire_transaction_to_addr (srv_conn env) a d) addrs"
    have "\<And>f. f \<in> set ?fs \<Longrightarrow> no_panic f" using send_to_addr_no_panic(1)[OF assms] by auto
    from join_all_no_panic[OF this, where order = "srv_order env w" and w = w]
    obtain rs w' where "join_all (srv_order env w) ?fs w = (Return rs, w')" by blast
    with a show "\<exists>r w'. attempt_txn env d w = (Return r, w')"
      by (simp add: attempt_txn_def tpu_try_send_wire_transaction_def try_send_wire_transaction_def)
  qed
  show "no_panic (attempt_batch env ds)"
    unfolding no_panic_def
  proof
    fix w
    obtain addrs where a: "unique_leader_tpu_sockets (srv_sdk env) (srv_profile env)
      (leader_tpu_service (tpu_client (srv_client env w)))
      (fanout_slots (tpu_client (srv_client env w))) = Return addrs" using sockets by blast
    let ?fs = "map (\<lambda>a. send_wire_transaction_batch_to_addr (srv_conn env) a ds) addrs"
    have "\<And>f. f \<in> set ?fs \<Longrightarrow> no_panic f" using send_to_addr_no_panic(2)[OF assms] by auto
    from join_all_no_panic[OF this, where order = "srv_order env w" and w = w]
    obtain rs w' where "join_all (srv_order env w) ?fs w = (Return rs, w')" by blast
    with a show "\<exists>r w'. attempt_batch env ds w = (Return r, w')"
      by (simp add: attempt_batch_def tpu_try_send_wire_transaction_batch_def
          try_send_wire_transaction_batch_def)
  qed
qed

section \<open>Properties\<close>

text \<open>
  C7: One request makes between one and ten attempts with the decoded payload, stops at the first
  that succeeds and never waits between two. The response carries their number; it is a 200
  success exactly when the last attempt succeeded, and otherwise a 500 after ten attempts with the
  error of the tenth.
\<close>
theorem transaction_attempts:
  assumes "handle_transaction env req w = (Return resp, w')"
  shows "\<exists>rs. retry 10 (attempt_txn env (txn_payload env (txn req))) id w = (Return rs, w')
    \<and> attempts_ok 10 rs
    \<and> resp_attempts (body resp) = of_nat (length rs)
    \<and> processing_time_ms (body resp) = elapsed_ms env (srv_now_ms env w) w'
    \<and> (case last rs of
         Inr u \<Rightarrow> status_code resp = 200 \<and> resp_error (body resp) = None
       | Inl e \<Rightarrow> status_code resp = 500 \<and> resp_error (body resp) = Some (srv_display env e)
           \<and> length rs = 10)"
proof -
  obtain v where v: "transaction_loop env (txn req) 0 None w = (Return v, w')"
    using assms by (auto simp: handle_transaction_def Let_def split: prod.splits outcome.splits sum.splits)
  obtain rs where rs: "retry 10 (attempt_txn env (txn_payload env (txn req))) id w = (Return rs, w')"
      "attempts_ok 10 rs" "v = txn_verdict 0 None rs"
    using txn_retry.run_ok[OF v] by blast
  show ?thesis
  proof (cases "Inr () \<in> set rs")
    case True
    then have "last rs = Inr ()"
      using rs(2) by (cases rs rule: rev_cases) (auto simp: attempts_ok_def)
    then show ?thesis
      using assms v rs True by (intro exI[of _ rs]) (auto simp: handle_transaction_def Let_def txn_verdict_def)
  next
    case False
    obtain e where e: "last rs = Inl e" using attempts_ok_given_up(2)[OF rs(2) False] by blast
    then have "last_err None rs = Some e"
      using rs(2) last_err_of_last by (simp add: attempts_ok_def)
    then show ?thesis
      using assms v rs False e attempts_ok_given_up(1)[OF rs(2) False]
      by (intro exI[of _ rs]) (auto simp: handle_transaction_def Let_def txn_verdict_def)
  qed
qed

definition sample_env :: "nat server_env" where
  "sample_env = \<lparr>srv_sdk = sample_sdk, srv_profile = Checked,
     srv_conn = \<lparr>get_nonblocking_connection = (\<lambda>a w. (0, w)),
       conn_send_data = (\<lambda>c d w. (Return (Inl (TransportCustom ''refused'')), Suc w)),
       conn_send_data_batch = (\<lambda>c ds w. (Return (Inl (TransportCustom ''refused'')), Suc w))\<rparr>,
     srv_client = (\<lambda>w. \<lparr>tpu_client = sample_client\<rparr>), srv_order = (\<lambda>w. []),
     srv_decode = (\<lambda>d. if d = [] then None else Some d),
     srv_display = (\<lambda>e. ''refused''), srv_debug = (\<lambda>e. ''Refused''),
     srv_now_ms = (\<lambda>w. w), srv_sleep = (\<lambda>d w. w + d)\<rparr>"

lemma sample_env_ok: "server_ok sample_env"
  using sample_client_ok
  by (simp add: server_ok_def sample_env_def no_panic_def sample_sdk_def sample_client_def
      MAX_FANOUT_SLOTS_def)



lemma sample_env_total:
  "\<exists>resp w'. handle_transaction sample_env \<lparr>txn = [1]\<rparr> 0 = (Return resp, w')"
proof -
  obtain rs w' where "retry 10 (attempt_txn sample_env (txn_payload sample_env [1])) id 0 = (Return rs, w')"
    using retry_no_panic[OF attempt_no_panic(1)[OF sample_env_ok]] by blast
  then have "transaction_loop sample_env [1] 0 None 0 = (Return (txn_verdict 0 None rs), w')"
    by (simp add: transaction_loop_eq)
  then show ?thesis by (simp add: handle_transaction_def Let_def txn_verdict_def)
qed

theorem transaction_attempts_witness:
  "\<exists>resp w' rs. handle_transaction sample_env \<lparr>txn = [1]\<rparr> 0 = (Return resp, w')
    \<and> attempts_ok 10 rs \<and> resp_attempts (body resp) = of_nat (length rs)"
proof -
  obtain resp w' where "handle_transaction sample_env \<lparr>txn = [1]\<rparr> 0 = (Return resp, w')"
    using sample_env_total by blast
  from transaction_attempts[OF this] this show ?thesis by blast
qed

text \<open>
  The single-transaction handler never uses the timer: whatever sleeping does, the response and
  the final state are the same, although the code logs that it waits before the next retry.
\<close>
lemma transaction_retry_never_waits:
  "handle_transaction (env\<lparr>srv_sleep := s\<rparr>) req w = handle_transaction env req w"
proof -
  have "attempt_txn (env\<lparr>srv_sleep := s\<rparr>) = attempt_txn env"
    and "txn_payload (env\<lparr>srv_sleep := s\<rparr>) = txn_payload env"
    by (auto simp: attempt_txn_def txn_payload_def fun_eq_iff)
  then have "transaction_loop (env\<lparr>srv_sleep := s\<rparr>) d a le w = transaction_loop env d a le w" for d a le
    by (simp add: transaction_loop_eq)
  then show ?thesis
    by (simp add: handle_transaction_def Let_def elapsed_ms_def split: prod.split outcome.split sum.split)
qed

text \<open>
  C6: A batch request is a run over the chunks of ten of its decodable transactions: batch by
  batch in order, at most ten attempts each with a pause of 100 ms in between, no batch started
  before the one in front of it succeeded, and the first batch given up ends the run. The
  response is a success exactly when every batch was sent, and otherwise names that batch.
\<close>
theorem batch_handler_refines_run:
  assumes "handle_transactions_batched env req w = (Return resp, w')"
  shows "\<exists>rss. batch_run env (chunks_of 10 (List.map_filter (srv_decode env) (txns req))) w rss w'
    \<and> length rss \<le> length (chunks_of 10 (List.map_filter (srv_decode env) (txns req)))
    \<and> (\<forall>rs \<in> set rss. attempts_ok 10 rs)
    \<and> (\<forall>rs \<in> set (butlast rss). Inr () \<in> set rs)
    \<and> resp_attempts (body resp) = of_nat (run_attempts_total rss)
    \<and> (if \<not> run_failed rss
       then status_code resp = 200 \<and> resp_error (body resp) = None
         \<and> length rss = length (chunks_of 10 (List.map_filter (srv_decode env) (txns req)))
       else status_code resp = 500 \<and> resp_error (body resp) =
           Some (batch_error env (length rss - 1) 10 (last_err None (last rss))))"
proof -
  let ?bs = "chunks_of 10 (List.map_filter (srv_decode env) (txns req))"
  obtain rss where rss: "batch_run env ?bs w rss w'"
      "resp = batch_response env (srv_now_ms env w) 0 0 rss w'"
    using batches_loop_run[OF assms[unfolded handle_transactions_batched_def]] by (elim exE conjE)
  from batch_run_shape[OF rss(1)] have shape: "length rss \<le> length ?bs"
      "\<forall>rs \<in> set rss. attempts_ok 10 rs" "\<forall>rs \<in> set (butlast rss). Inr () \<in> set rs"
      "\<not> run_failed rss \<Longrightarrow> length rss = length ?bs"
    by (auto simp: run_failed_def)
  show ?thesis
    using rss shape by (intro exI[of _ rss]) (simp add: batch_response_def)
qed



theorem batch_handler_refines_run_witness:
  "\<exists>resp w' rss. handle_transactions_batched sample_env \<lparr>txns = [[1], [], [2]]\<rparr> 0 = (Return resp, w')
    \<and> batch_run sample_env (chunks_of 10 [[1], [2]]) 0 rss w'"
proof -
  have m: "List.map_filter (srv_decode sample_env) [[1], [], [2]] = [[1], [2]]"
    by (simp add: sample_env_def map_filter_simps)
  have room: "srv_profile sample_env = Wrapping
      \<or> unat (0 :: u32) + 10 * length (chunks_of 10 ([[1], [2]] :: bytes list)) < 2 ^ 32"
    by (simp add: length_chunks_of)
  have "\<exists>resp w'. handle_transactions_batched sample_env \<lparr>txns = [[1], [], [2]]\<rparr> 0 = (Return resp, w')"
    using batches_loop_no_panic[OF attempt_no_panic(2)[OF sample_env_ok] room]
    unfolding handle_transactions_batched_def transactions_request.simps m by blast
  then obtain resp w' where r: "handle_transactions_batched sample_env \<lparr>txns = [[1], [], [2]]\<rparr> 0
      = (Return resp, w')" by (elim exE)
  from batch_handler_refines_run[OF r] show ?thesis
    using r unfolding transactions_request.simps m by blast
qed

text \<open>
  The batches are the decodable transactions of the request in order, none lost and none
  twice, in groups of one to ten, as few as possible; the undecodable ones are dropped without a
  trace in the response.
\<close>
lemma batches_cover_request:
  "concat (chunks_of 10 (List.map_filter decode ts)) = List.map_filter decode ts
   \<and> list_all (\<lambda>c. c \<noteq> [] \<and> length c \<le> 10) (chunks_of 10 (List.map_filter decode ts))
   \<and> length (chunks_of 10 (List.map_filter decode ts)) = (length (List.map_filter decode ts) + 9) div 10"
  using concat_chunks_of[of 10 "List.map_filter decode ts"] length_chunks_of[of 10 "List.map_filter decode ts"]
    chunks_of_sizes[of _ 10 "List.map_filter decode ts"]
  by (auto simp: list_all_iff)

text \<open>
  A batch request none of whose transactions can be decoded, the empty one included, is
  answered with a 200 success after zero attempts, and nothing happens in the world.
\<close>
lemma undecodable_batch_succeeds:
  assumes "\<forall>t \<in> set (txns req). srv_decode env t = None"
  shows "handle_transactions_batched env req w =
    (Return \<lparr>status_code = 200, body = \<lparr>resp_status = ''success'', resp_error = None,
       processing_time_ms = 0, resp_attempts = 0\<rparr>\<rparr>, w)"
proof -
  have "List.map_filter (srv_decode env) (txns req) = []"
    using assms by (induction "txns req" arbitrary: req)
      (simp_all add: List.map_filter_def filter_empty_conv)
  then have "chunks_of 10 (List.map_filter (srv_decode env) (txns req)) = []"
    by (subst chunks_of.simps) simp
  then show ?thesis by (simp add: handle_transactions_batched_def elapsed_ms_def)
qed

lemma undecodable_batch_succeeds_witness:
  "handle_transactions_batched sample_env \<lparr>txns = [[], []]\<rparr> 7 =
    (Return \<lparr>status_code = 200, body = \<lparr>resp_status = ''success'', resp_error = None,
       processing_time_ms = 0, resp_attempts = 0\<rparr>\<rparr>, 7)"
  by (rule undecodable_batch_succeeds) (simp add: sample_env_def)



text \<open>
  Without \<open>RPC_URL\<close> or \<open>WS_URL\<close> in the environment the server panics before any request to the
  RPC node.
\<close>
lemma startup_needs_both_urls:
  assumes "st_getenv st ''RPC_URL'' = None \<or> st_getenv st ''WS_URL'' = None"
  shows "start_server fuel st w = Some (Panic UnwrapFailed, w)"
  using assms by (auto simp: start_server_def split: option.split)

definition sample_startup :: "(nat, nat, unit, nat, nat) startup_env" where
  "sample_startup = \<lparr>st_sdk = sample_sdk,
     st_getenv = (\<lambda>v. if v = ''RPC_URL'' then Some ''http://localhost'' else None),
     st_crypto_installed = True, st_certificate = (\<lambda>kp. ([], [])), st_fresh_keypair = 0,
     st_client_keypair = 1, st_unspecified_ip = 0, st_backend_new = (\<lambda>n m sz. Inr ()),
     st_rpc_client = (\<lambda>u. race_env\<lparr>rpc_sleep := (\<lambda>d w. w + d)\<rparr>), st_pubsub = (\<lambda>u. None),
     st_can_bind = (\<lambda>a. True)\<rparr>"

lemma startup_needs_both_urls_witness:
  "start_server 21 sample_startup 0 = Some (Panic UnwrapFailed, 0)"
  by (rule startup_needs_both_urls) (simp add: sample_startup_def)

text \<open>
  With a clock that does not run backwards the start-up ends, within 21 turns of the leader
  fetch: either the server listens, with a client that the backend constructor returned and the
  cache that the external constructor returned for the default options, or it has panicked; there
  is no third outcome and no error value.
\<close>
lemma startup_listens_or_panics:
  assumes "clock_ok (st_rpc_client st (the (st_getenv st ''RPC_URL'')))"
  shows "\<exists>r w'. start_server 21 st w = Some (r, w')
    \<and> (case r of
         Panic e \<Rightarrow> True
       | Return (t, cache) \<Rightarrow> st_can_bind st ''127.0.0.1:3001''
           \<and> (\<exists>rpc ws. st_getenv st ''RPC_URL'' = Some rpc \<and> st_getenv st ''WS_URL'' = Some ws
               \<and> new_backend_client 21 (st_sdk st) (st_rpc_client st rpc) (st_pubsub st) ws default_config w
                   = Some (Return (Inr (tpu_client t)), w'))
           \<and> new_connection_cache (st_certificate st) (st_fresh_keypair st) (st_client_keypair st)
               (st_unspecified_ip st) (st_backend_new st) ''tpu'' = Return (Quic cache))"
proof (cases "st_crypto_installed st \<and> st_getenv st ''RPC_URL'' \<noteq> None \<and> st_getenv st ''WS_URL'' \<noteq> None")
  case False
  then have "start_server 21 st w = Some (Panic UnwrapFailed, w)"
    by (auto simp: start_server_def split: option.split)
  then show ?thesis by simp
next
  case True
  then obtain rpc ws where e: "st_crypto_installed st" "st_getenv st ''RPC_URL'' = Some rpc"
      "st_getenv st ''WS_URL'' = Some ws" by auto
  have "clock_ok (st_rpc_client st rpc)" using assms e(2) by simp
  from service_constructor_returns[OF this, of "st_sdk st" "st_pubsub st" ws QUIC w]
  have n: "new_backend_client 21 (st_sdk st) (st_rpc_client st rpc) (st_pubsub st) ws default_config w \<noteq> None"
    by (auto simp: new_backend_client_def split: prod.splits outcome.splits sum.splits)
  note defs = start_server_def tpu_client_new_def new_tpu_client_def
  have "start_server 21 st w \<noteq> None"
    using e n by (auto simp: defs
        split: outcome.split connection_cache.split option.split prod.split sum.split)
  then obtain r w' where s: "start_server 21 st w = Some (r, w')" by auto
  have "st_can_bind st ''127.0.0.1:3001''
      \<and> new_backend_client 21 (st_sdk st) (st_rpc_client st rpc) (st_pubsub st) ws default_config w
          = Some (Return (Inr (tpu_client t)), w')
      \<and> new_connection_cache (st_certificate st) (st_fresh_keypair st) (st_client_keypair st)
          (st_unspecified_ip st) (st_backend_new st) ''tpu'' = Return (Quic cache)"
    if "r = Return (t, cache)" for t cache
    using s e that by (auto simp: defs
        split: outcome.splits connection_cache.splits option.splits prod.splits sum.splits if_splits)
  then show ?thesis
    using s e by (intro exI[of _ r] exI[of _ w']) (auto split: outcome.split)
qed

lemma startup_listens_or_panics_witness:
  "\<exists>r w'. start_server 21 (sample_startup\<lparr>st_getenv := (\<lambda>v. Some [])\<rparr>) 0 = Some (r, w')"
proof -
  have "clock_ok (st_rpc_client (sample_startup\<lparr>st_getenv := (\<lambda>v. Some [])\<rparr>)
      (the (st_getenv (sample_startup\<lparr>st_getenv := (\<lambda>v. Some [])\<rparr>) ''RPC_URL'')))"
    by (simp add: clock_ok_def race_env_def sample_startup_def)
  from startup_listens_or_panics[OF this, of 0] show ?thesis by blast
qed

end
