(* ===== verification/Delivery.thy ===== *)
theory Delivery
  imports Server
begin

text \<open>
  The composition of the layers: the HTTP handlers over the TPU client, over the connection
  operations of the QUIC client. The lemmas follow what is written to the network from the send on
  one connection up to the response; the properties that rest on them are in the root theory.
\<close>

section \<open>The connection operations\<close>

text \<open>Picking a connection for an address writes nothing: it is the external cache's bookkeeping.\<close>

definition picks_quietly ::
  "(socket_addr \<Rightarrow> ('w \<times> quic_event list) cache_world \<Rightarrow> nat \<times> ('w \<times> quic_event list) cache_world)
    \<Rightarrow> bool" where
  "picks_quietly pick \<longleftrightarrow> (\<forall>a cw. written (cw_world (snd (pick a cw))) = written (cw_world cw))"

abbreviation net :: "('w \<times> quic_event list) cache_world \<Rightarrow> (bytes \<times> (write_error + unit)) list" where
  "net cw \<equiv> written (cw_world cw)"

lemma send_data_returns:
  assumes "undisturbed q"
  shows "\<exists>r s'. send_data 4 (observed_quinn q) debug conv d s = Some (r, s')"
proof -
  obtain r st s' where "send_buffer0 4 (observed_quinn q) d default_client_stats s = Some (r, st, s')"
    using send_buffer_loop_returns[OF undisturbed_observed[OF assms]] unfolding send_buffer0_def by fastforce
  then show ?thesis
    by (cases r) (auto simp: send_data_def send_buffer_def split: sum.split)
qed

lemma send_data_batch_returns:
  assumes "undisturbed q"
  shows "\<exists>r s'. send_data_batch 4 (observed_quinn q) debug conv ds s = Some (r, s')"
proof (cases ds)
  case Nil
  then show ?thesis by (simp add: send_data_batch_def send_batch_def)
next
  case (Cons d rest)
  obtain r st s' where "send_buffer0 4 (observed_quinn q) d default_client_stats s = Some (r, st, s')"
    using send_buffer_loop_returns[OF undisturbed_observed[OF assms]] unfolding send_buffer0_def by fastforce
  then show ?thesis
    by (cases r) (auto simp: Cons send_data_batch_def send_batch_def Let_def split: sum.split prod.split)
qed

lemma quic_send_net:
  assumes "undisturbed q" and "picks_quietly pick"
    and "send_wire_transaction_to_addr (quic_conn_ops (observed_quinn q) debug conv pick) a d cw = (Return r, cw')"
  shows "\<exists>ws. net cw' = net cw @ ws
    \<and> (if r = Inr () then ws = (if d = [] then [] else [(d, Inr ())])
       else ws = [] \<or> (d \<noteq> [] \<and> (\<exists>we. ws = [(d, Inl we)])))"
proof -
  obtain h cw1 where p: "pick a cw = (h, cw1)" by (meson surj_pair)
  then have n: "net cw1 = net cw" using assms(2) unfolding picks_quietly_def by (metis snd_conv)
  obtain x s' where s: "send_data 4 (observed_quinn q) debug conv d (client_state cw1 h) = Some (x, s')"
    using send_data_returns[OF assms(1)] by blast
  then have x: "x = Return r" and w: "cw_world cw' = qs_world s'"
    using assms(3) p by (auto simp: send_wire_transaction_to_addr_def quic_conn_ops_def)
  obtain ws where "written (qs_world s') = written (qs_world (client_state cw1 h)) @ ws"
      "if r = Inr () then ws = (if d = [] then [] else [(d, Inr ())])
       else ws = [] \<or> (d \<noteq> [] \<and> (\<exists>we. ws = [(d, Inl we)]))"
    using send_data_effects[OF s[unfolded x]] by (auto simp only: effects_def)
  then show ?thesis using n w by (intro exI[of _ ws]) simp
qed

lemma quic_batch_net:
  assumes "undisturbed q" and "picks_quietly pick"
    and "send_wire_transaction_batch_to_addr (quic_conn_ops (observed_quinn q) debug conv pick) a ds cw
      = (Return r, cw')"
  shows "\<exists>ws. net cw' = net cw @ ws \<and> batch_writes_match (batch_todo ds) r ws"
proof -
  obtain h cw1 where p: "pick a cw = (h, cw1)" by (meson surj_pair)
  then have n: "net cw1 = net cw" using assms(2) unfolding picks_quietly_def by (metis snd_conv)
  obtain x s' where s: "send_data_batch 4 (observed_quinn q) debug conv ds (client_state cw1 h) = Some (x, s')"
    using send_data_batch_returns[OF assms(1)] by blast
  then have x: "x = Return r" and w: "cw_world cw' = qs_world s'"
    using assms(3) p by (auto simp: send_wire_transaction_batch_to_addr_def quic_conn_ops_def)
  show ?thesis
    using send_data_batch_effects[OF s[unfolded x]] n w by (auto simp: effects_def)
qed

section \<open>One attempt\<close>

definition delivers_count :: "bytes \<Rightarrow> ('w \<times> quic_event list) cache_world \<Rightarrow> nat" where
  "delivers_count d cw = count_list (net cw) (d, Inr ())"

definition adds_only :: "bytes \<Rightarrow> (bytes \<times> (write_error + unit)) list
    \<Rightarrow> ('w \<times> quic_event list) cache_world \<Rightarrow> bool" where
  "adds_only d l cw \<longleftrightarrow> (\<exists>ws. net cw = l @ ws \<and> fst ` set ws \<subseteq> {d} \<and> (d = [] \<longrightarrow> ws = []))"

lemma adds_only_refl: "adds_only d (net cw) cw"
  by (simp add: adds_only_def)

lemma quic_send_adds_only:
  assumes "undisturbed q" and "picks_quietly pick"
    and "send_wire_transaction_to_addr (quic_conn_ops (observed_quinn q) debug conv pick) a d cw = (Return r, cw')"
    and "adds_only d l cw"
  shows "adds_only d l cw'"
proof -
  obtain ws where ws: "net cw = l @ ws" "fst ` set ws \<subseteq> {d}" "d = [] \<longrightarrow> ws = []"
    using assms(4) by (auto simp: adds_only_def)
  obtain ws' where ws': "net cw' = net cw @ ws'"
      "if r = Inr () then ws' = (if d = [] then [] else [(d, Inr ())])
       else ws' = [] \<or> (d \<noteq> [] \<and> (\<exists>we. ws' = [(d, Inl we)]))"
    using quic_send_net[OF assms(1-3)] by blast
  have "fst ` set ws' \<subseteq> {d}" "d = [] \<longrightarrow> ws' = []" using ws'(2) by (auto split: if_splits)
  then show ?thesis
    unfolding adds_only_def by (intro exI[of _ "ws @ ws'"]) (use ws ws'(1) in auto)
qed

lemma quic_send_count:
  assumes "undisturbed q" and "picks_quietly pick"
    and "send_wire_transaction_to_addr (quic_conn_ops (observed_quinn q) debug conv pick) a d cw = (Return r, cw')"
    and "d \<noteq> []"
  shows "delivers_count d cw' = delivers_count d cw + (if r = Inr () then 1 else 0)"
  using quic_send_net[OF assms(1-3)] assms(4)
  by (auto simp: delivers_count_def split: if_splits)

lemma sum_indicator_pos: "0 < (\<Sum>i<length xs. if xs ! i = y then 1 else 0 :: nat) \<longleftrightarrow> y \<in> set xs"
proof -
  have "(\<Sum>i<length xs. if xs ! i = y then 1 else 0 :: nat) = 0 \<longleftrightarrow> (\<forall>i<length xs. xs ! i \<noteq> y)"
    by (auto simp: sum_eq_0_iff)
  also have "\<dots> \<longleftrightarrow> y \<notin> set xs" by (auto simp: in_set_conv_nth)
  finally show ?thesis by (metis neq0_conv)
qed

text \<open>The environments that the properties are about: the server over the observed QUIC client.\<close>

definition over_quic ::
  "('w \<times> quic_event list) cache_world server_env \<Rightarrow> 'w quinn \<Rightarrow> bool" where
  "over_quic env q \<longleftrightarrow> undisturbed q
     \<and> (\<exists>debug conv pick. srv_conn env = quic_conn_ops (observed_quinn q) debug conv pick \<and> picks_quietly pick)"

lemma attempt_txn_net:
  assumes "over_quic env q" and "attempt_txn env d cw = (Return r, cw')"
  shows "adds_only d l cw \<Longrightarrow> adds_only d l cw'"
    and "d \<noteq> [] \<Longrightarrow> \<exists>k. delivers_count d cw' = delivers_count d cw + k \<and> (0 < k \<longleftrightarrow> r = Inr ())"
proof -
  obtain debug conv pick where q: "undisturbed q" "picks_quietly pick"
      "srv_conn env = quic_conn_ops (observed_quinn q) debug conv pick"
    using assms(1) by (auto simp: over_quic_def)
  let ?cc = "quic_conn_ops (observed_quinn q) debug conv pick"
  obtain addrs results where t:
      "join_all (srv_order env cw) (map (\<lambda>addr. send_wire_transaction_to_addr ?cc addr d) addrs) cw
         = (Return results, cw')"
      "r = collect_results results" "length results = length addrs"
    using try_send_Return[OF assms(2)[unfolded attempt_txn_def tpu_try_send_wire_transaction_def q(3)]]
    by metis
  show "adds_only d l cw'" if "adds_only d l cw"
    using join_all_establishes[where P = "adds_only d l" and Q = "\<lambda>r. False", OF _ t(1)]
      quic_send_adds_only[OF q(1,2)] that by auto
  show "\<exists>k. delivers_count d cw' = delivers_count d cw + k \<and> (0 < k \<longleftrightarrow> r = Inr ())" if "d \<noteq> []"
  proof -
    let ?k = "\<Sum>i<length addrs. if results ! i = Inr () then 1 else 0 :: nat"
    have step: "delivers_count d w1 = delivers_count d w + (if x = Inr () then 1 else 0)"
      if "i < length (map (\<lambda>addr. send_wire_transaction_to_addr ?cc addr d) addrs)"
        "(map (\<lambda>addr. send_wire_transaction_to_addr ?cc addr d) addrs ! i) w = (Return x, w1)" for i w x w1
      by (rule quic_send_count[OF q(1,2) _ \<open>d \<noteq> []\<close>, where a = "addrs ! i"]) (use that in simp)
    have "delivers_count d cw' = delivers_count d cw
        + (\<Sum>i<length (map (\<lambda>addr. send_wire_transaction_to_addr ?cc addr d) addrs).
             if results ! i = Inr () then 1 else 0)"
      by (rule join_all_log[where log = "delivers_count d" and entry = "\<lambda>i x. if x = Inr () then 1 else 0",
            OF step t(1)])
    then have "delivers_count d cw' = delivers_count d cw + ?k" by simp
    moreover have "0 < ?k \<longleftrightarrow> Inr () \<in> set results"
      using sum_indicator_pos[of results "Inr ()"] t(3) by simp
    moreover have "Inr () \<in> set results \<longleftrightarrow> r = Inr ()"
      using t(2) collect_results_Inr_iff[of results] by auto
    ultimately show ?thesis by (intro exI[of _ ?k]) simp
  qed
qed

lemma set_batch_written:
  assumes "batch_writes_match (batch_todo ds) (Inr u) ws"
  shows "(\<lambda>d. (d, Inr ())) ` (set ds - {[]}) \<subseteq> set ws"
proof -
  have "ws = map (\<lambda>d. (d, Inr ())) (batch_todo ds)"
    using assms by (auto simp: batch_writes_match_def)
  then show ?thesis by (auto simp: batch_todo_def split: list.splits if_splits)
qed

lemma attempt_batch_net:
  assumes "over_quic env q" and "attempt_batch env ds cw = (Return r, cw')"
  shows "set l \<subseteq> set (net cw) \<Longrightarrow> set l \<subseteq> set (net cw')"
    and "r = Inr () \<Longrightarrow> (\<lambda>d. (d, Inr ())) ` (set ds - {[]}) \<subseteq> set (net cw')"
proof -
  obtain debug conv pick where q: "undisturbed q" "picks_quietly pick"
      "srv_conn env = quic_conn_ops (observed_quinn q) debug conv pick"
    using assms(1) by (auto simp: over_quic_def)
  let ?fs = "\<lambda>addrs. map (\<lambda>addr. send_wire_transaction_batch_to_addr
      (quic_conn_ops (observed_quinn q) debug conv pick) addr ds) addrs"
  obtain addrs results where t:
      "join_all (srv_order env cw) (?fs addrs) cw = (Return results, cw')"
      "r = collect_results results"
    using try_send_batch_Return[OF assms(2)[unfolded attempt_batch_def
        tpu_try_send_wire_transaction_batch_def q(3)]] by metis
  have step: "\<exists>ws. net w1 = net w @ ws \<and> batch_writes_match (batch_todo ds) x ws"
    if "i < length (?fs addrs)" "(?fs addrs ! i) w = (Return x, w1)" for i w x w1
    using quic_batch_net[OF q(1,2)] that by auto
  let ?P = "\<lambda>ks cw. ks \<subseteq> set (net cw)"
  have keep: "(?P ks w \<longrightarrow> ?P ks w1) \<and> (False \<longrightarrow> ?P ks w1)"
    if "i < length (?fs addrs)" "(?fs addrs ! i) w = (Return x, w1)" for i w x w1 ks
    using step[OF that] by auto
  show "set l \<subseteq> set (net cw')" if "set l \<subseteq> set (net cw)"
    using join_all_establishes[where P = "?P (set l)" and Q = "\<lambda>x. False", OF keep t(1)] that by simp
  let ?ks = "(\<lambda>d. (d, Inr ())) ` (set ds - {[]})"
  have new: "(?P ?ks w \<longrightarrow> ?P ?ks w1) \<and> (x = Inr () \<longrightarrow> ?P ?ks w1)"
    if i: "i < length (?fs addrs)" "(?fs addrs ! i) w = (Return x, w1)" for i w x w1
  proof -
    obtain ws where ws: "net w1 = net w @ ws" "batch_writes_match (batch_todo ds) x ws"
      using step[OF i] by blast
    then have "x = Inr () \<longrightarrow> ?ks \<subseteq> set ws" using set_batch_written[of ds "()" ws] by auto
    then show ?thesis using ws(1) by auto
  qed
  have "(\<exists>x. x \<in> set results \<and> x = Inr ()) \<longrightarrow> ?P ?ks cw'"
    by (rule conjunct2[OF join_all_establishes[where P = "?P ?ks" and Q = "\<lambda>x. x = Inr ()", OF new t(1)]])
  then show "?ks \<subseteq> set (net cw')" if "r = Inr ()"
    using that t(2) collect_results_Inr_iff[of results] by auto
qed

section \<open>Retries\<close>

lemma retry_txn_net:
  assumes "over_quic env q"
    and "retry n (attempt_txn env d) (\<lambda>w. w) cw = (Return rs, cw')"
  shows "(adds_only d l cw \<longrightarrow> adds_only d l cw')
    \<and> (d \<noteq> [] \<longrightarrow> (\<exists>k. delivers_count d cw' = delivers_count d cw + k \<and> (0 < k \<longleftrightarrow> Inr () \<in> set rs)))"
  using assms(2)
proof (induction n arbitrary: cw rs)
  case 0
  then show ?case by simp
next
  case (Suc n)
  obtain r cw1 where a: "attempt_txn env d cw = (Return r, cw1)"
    using Suc.prems by (auto split: prod.splits outcome.splits)
  note e = attempt_txn_net[OF assms(1) a]
  show ?case
  proof (cases r)
    case (Inr u)
    then have "rs = [Inr ()] \<and> cw' = cw1" using Suc.prems a by auto
    then show ?thesis using e Inr by auto
  next
    case (Inl err)
    then obtain rs' where r: "rs = Inl err # rs'" "retry n (attempt_txn env d) (\<lambda>w. w) cw1 = (Return rs', cw')"
      using Suc.prems a by (auto split: prod.splits outcome.splits)
    note ih = Suc.IH[OF r(2)]
    have "\<exists>k. delivers_count d cw' = delivers_count d cw + k \<and> (0 < k \<longleftrightarrow> Inr () \<in> set rs)" if ne: "d \<noteq> []"
    proof -
      obtain j where "delivers_count d cw1 = delivers_count d cw + j" "0 < j \<longleftrightarrow> r = Inr ()"
        using e(2)[OF ne] by blast
      moreover obtain k where "delivers_count d cw' = delivers_count d cw1 + k"
          "0 < k \<longleftrightarrow> Inr () \<in> set rs'" using ih ne by blast
      ultimately show ?thesis using Inl r(1) by (intro exI[of _ "j + k"]) auto
    qed
    then show ?thesis using ih e(1) by blast
  qed
qed

definition sleeps_quietly :: "('w \<times> quic_event list) cache_world server_env \<Rightarrow> bool" where
  "sleeps_quietly env \<longleftrightarrow> (\<forall>d cw. net (srv_sleep env d cw) = net cw)"

lemma retry_batch_net:
  assumes "over_quic env q" and "sleeps_quietly env"
    and "retry n (attempt_batch env ds) (srv_sleep env t) cw = (Return rs, cw')"
  shows "(set l \<subseteq> set (net cw) \<longrightarrow> set l \<subseteq> set (net cw'))
    \<and> (Inr () \<in> set rs \<longrightarrow> (\<lambda>d. (d, Inr ())) ` (set ds - {[]}) \<subseteq> set (net cw'))"
  using assms(3)
proof (induction n arbitrary: cw rs l)
  case 0
  then show ?case by simp
next
  case (Suc n)
  obtain r cw1 where a: "attempt_batch env ds cw = (Return r, cw1)"
    using Suc.prems by (auto split: prod.splits outcome.splits)
  note e = attempt_batch_net[OF assms(1) a]
  show ?case
  proof (cases r)
    case (Inr u)
    then have "rs = [Inr ()] \<and> cw' = cw1" using Suc.prems a by auto
    then show ?thesis using e Inr by auto
  next
    case (Inl err)
    let ?cw = "if n = 0 then cw1 else srv_sleep env t cw1"
    obtain rs' where r: "rs = Inl err # rs'" "retry n (attempt_batch env ds) (srv_sleep env t) ?cw = (Return rs', cw')"
      using Suc.prems a Inl by (auto split: prod.splits outcome.splits)
    have "net ?cw = net cw1" using assms(2) by (simp add: sleeps_quietly_def)
    then show ?thesis using Suc.IH[OF r(2), of l] e(1)[of l] r(1) by auto
  qed
qed

lemma batch_run_net:
  assumes "over_quic env q" and "sleeps_quietly env"
  shows "batch_run env bs cw rss cw' \<Longrightarrow>
    (set l \<subseteq> set (net cw) \<longrightarrow> set l \<subseteq> set (net cw'))
    \<and> (\<not> run_failed rss \<longrightarrow> (\<lambda>d. (d, Inr ())) ` (set (concat bs) - {[]}) \<subseteq> set (net cw'))"
proof (induction arbitrary: l rule: batch_run.induct)
  case (all_sent w)
  then show ?case by simp
next
  case (given_up b w rs w1 bs)
  then show ?case using retry_batch_net[OF assms given_up(1), of l] by (simp add: run_failed_def)
next
  case (sent b w rs w1 bs rss w2)
  have b: "(\<lambda>d. (d, Inr ())) ` (set b - {[]}) \<subseteq> set (net w1)"
    using retry_batch_net[OF assms sent(1)] sent(3) by blast
  have "set (net w1) \<subseteq> set (net w2)" using sent(5)[of "net w1"] by blast
  moreover have "\<not> run_failed (rs # rss) \<Longrightarrow> \<not> run_failed rss"
    by (auto simp: run_failed_def split: if_splits)
  ultimately show ?case
    using b sent(5)[of l] retry_batch_net[OF assms sent(1), of l] by (auto 4 3)
qed

end
