(* ===== verification/Spec2Isabelle.thy ===== *)
theory Spec2Isabelle
  imports Main Prelude Recent_Slots Leader_Cache Leader_Service Transport Tpu_Client
    Quic_Client Task_Semaphore Quic_Pool Server Delivery
begin

text \<open>
  A verification library for the TPU transaction sender server.

  The program (all file names below \<open>src/src/\<close>) is an HTTP server that receives Solana
  transactions and sends them to the validators that lead the current and the next slots.
  \<open>main.rs\<close> builds one client and answers the requests. The client
  (\<open>engine/tpu_client.rs\<close> over \<open>engine/backend_tpu_client.rs\<close>) asks its leader service for
  the sockets of the upcoming leaders and sends to all of them at once. The leader service keeps two
  pieces of shared state: the window of recently seen slots
  (\<open>engine/recent_leaders_slot.rs\<close>), fed by the slot watcher task, and the leader schedule with
  the map of sockets (\<open>engine/leader_tpu_cache.rs\<close>), fed by the cache refresher task. A send goes
  over a connection of an external connection cache (\<open>engine/connection_cache.rs\<close>), to which
  \<open>quik/mod.rs\<close> supplies configuration, pool and manager, and whose connections are the QUIC
  clients of \<open>quik/nonblocking/quik_client.rs\<close> and \<open>quik/quik_client.rs\<close>.

  The theories, from the bottom up.

  \<^item> \<open>Prelude\<close>: machine integers as words of their width, computations that may panic
    (\<open>outcome\<close>), arithmetic of the two build profiles (\<open>Checked\<close>: overflow panics; \<open>Wrapping\<close>:
    it wraps), and list lemmas. Its collections \<open>rust_arith\<close> and \<open>outcome_simps\<close> carry the
    arithmetic of the components.
  \<^item> \<open>Recent_Slots\<close> (\<open>recent_leaders_slot.rs\<close>): the record \<open>recent_leader_slots\<close> is the locked
    queue; \<open>new_recent_slots\<close>, \<open>record_slot\<close> and \<open>estimated_current_slot\<close> are its methods. The
    lemmas show that the window is the last twelve slots of the history, what the estimate is,
    and that a minority of outliers cannot move it past the honest slots.
  \<^item> \<open>Leader_Cache\<close> (\<open>leader_tpu_cache.rs\<close>): the schedule from \<open>first_slot\<close> on, the socket map,
    the two fan-out reads and the three updates of \<open>update_all\<close>. The lemmas give the closed form
    of the slots of a window, soundness and completeness of the sockets returned, an executable
    reference for them, and the round trip of an update and a lookup.
  \<^item> \<open>Leader_Service\<close> (\<open>LeaderTpuService\<close> of \<open>backend_tpu_client.rs\<close>): construction, the slot
    watcher, the cache refresher and the join of the two. The service state joins both caches with
    the poison flag of the cache lock. After every \<open>await\<close> of the refresher the slot updates that
    arrived meanwhile are applied, so the races between the two tasks are visible. The invariant
    \<open>service_ok\<close> is preserved by every step and excludes panics of the refresher.
  \<^item> \<open>Transport\<close>: the errors of a send, and \<open>join_all\<close> for an arbitrary order of completion.
  \<^item> \<open>Tpu_Client\<close> (\<open>BackendTpuClient\<close> and \<open>tpu_client.rs\<close>): construction, fan-out of a
    transaction and of a batch, the sequential variant, shutdown. The lemmas follow the sends
    through a log: once per leader, the first error reported, the fan-out bound.
  \<^item> \<open>Quic_Client\<close> (\<open>quik/nonblocking/quik_client.rs\<close>): endpoint, first connection, 0-RTT
    reconnect, the send loop, batches and reports. \<open>observed_quinn\<close> adds a log to the libraries;
    \<open>effects\<close> says which writes, reports and connection attempts a step adds, and
    \<open>send_loop_turnE\<close> splits a turn of the loop by how it ends.
  \<^item> \<open>Task_Semaphore\<close> (\<open>quik/quik_client.rs\<close>): the semaphore as the step relation \<open>sem_step\<close>,
    with its invariant and its deadlock, the spawned sends and the blocking connection.
  \<^item> \<open>Quic_Pool\<close> (\<open>quik/mod.rs\<close>, \<open>connection_cache.rs\<close>): configuration, pool, manager, cache
    wrapper, and \<open>quic_conn_ops\<close>, which puts the QUIC client behind the operations that
    \<open>Tpu_Client\<close> calls.
  \<^item> \<open>Server\<close> (\<open>main.rs\<close>): the two handlers with their retry loops, the responses and the
    start-up. The handlers are refined to \<open>retry\<close> and \<open>batch_run\<close>.
  \<^item> \<open>Delivery\<close> composes the layers, from a write on a stream to the response; the properties
    that span them all are in this theory.

  The interfaces are locales, each interpreted on the definitions of the model.

  \<^item> \<open>slot_tracker\<close>: a bounded window whose estimate is one of its slots (\<open>rls\<close>).
  \<^item> \<open>leader_schedule\<close>: a contiguous schedule, so that a covered window needs no refetch
    (\<open>sched\<close>).
  \<^item> \<open>socket_source\<close>: sockets without repetition out of a directory (\<open>usock\<close> for the cache,
    \<open>svc_sockets\<close> for the service).
  \<^item> \<open>packet_sender\<close>: a success has written exactly its data once (\<open>quic_sender\<close>,
    \<open>blocking_sender\<close>).
  \<^item> \<open>connection_pool\<close>: additions keep the indices handed out (\<open>qpool\<close>).
  \<^item> \<open>bounded_retry\<close>: a loop that makes at most ten attempts and stops at the first success
    (\<open>txn_retry\<close>, \<open>batch_retry\<close>).

  Conventions. A panic is the value \<open>Panic\<close>, a Rust \<open>Result\<close> a sum with the error on the left,
  and \<open>None\<close> around both is spent fuel. Code of other crates is a parameter: the records \<open>sdk\<close>
  (constants and key parsing of the Solana SDK), \<open>rpc_env\<close> (RPC node, clock, slot
  notifications, exit flag), \<open>conn_ops\<close> (the connection cache), \<open>quinn\<close> (QUIC, TLS, timers,
  statistics) and \<open>server_env\<close> (base64, rendering of errors, timer); the abstract world that is
  threaded through carries whatever state they have.

  Fuel. The loop for the initial leaders returns with 21 turns whenever each turn advances the
  clock by the one second it pauses, because its deadline is 20 s. The send loop returns with four
  turns when no other task uses the client meanwhile: at most three sends, for a stored
  connection and two connection attempts, and the last test of the counter; every replacement of
  the connection by another task costs at most one turn more (\<open>calm\<close>). With unbounded interference
  it need not return, as \<open>Quic_Client\<close> shows for a concrete race, so its safety properties hold for
  every fuel and every interference. The retry loops of the handlers terminate by a measure. The
  refresher and the watcher are meant to run for ever; their properties hold for every prefix.

  Concurrency. The tasks of the leader service interleave at the awaits of the refresher. Other
  tasks may use a QUIC client whenever a send waits for its mutex (\<open>q_lock\<close>). The threads of the
  semaphore interleave at its atomic sections. The futures of one fan-out complete in any order, but each
  is one step of the fan-out: interleavings inside a send of the same fan-out are not modelled,
  and the end-to-end properties assume that sends do not disturb each other.

  Not modelled: the accept loop, the HTTP framework, the parsing of requests, logging and the
  installation of the tracing subscriber, which are calls of axum, serde and tracing; the external
  connection cache, quinn, rustls and the RPC and pubsub clients, which are not part of the
  repository; the accessors that only return a shared handle (\<open>rpc_client\<close>, \<open>stats\<close>,
  \<open>base_stats\<close>, \<open>supported_verify_schemes\<close>); the test script \<open>script/main.ts\<close>.
\<close>

section \<open>Properties of the composition\<close>


definition e2e_env :: "(nat \<times> quic_event list) cache_world server_env" where
  "e2e_env = \<lparr>srv_sdk = sample_sdk, srv_profile = Checked,
     srv_conn = quic_conn_ops (observed_quinn sample_quinn) (\<lambda>e. []) (\<lambda>k. TransportCustom []) (\<lambda>a cw. (0, cw)),
     srv_client = (\<lambda>w. \<lparr>tpu_client = sample_client\<rparr>), srv_order = (\<lambda>w. []),
     srv_decode = (\<lambda>d. if d = [0] then None else Some d), srv_display = (\<lambda>e. []), srv_debug = (\<lambda>e. []),
     srv_now_ms = (\<lambda>w. 0), srv_sleep = (\<lambda>d w. w)\<rparr>"

definition e2e_world :: "(nat \<times> quic_event list) cache_world" where
  "e2e_world = \<lparr>cw_pools = [\<lparr>pool_connections = [new_quic_client (SocketV4 7 8009)],
        pool_endpoint = new_lazy_endpoint \<lparr>certificate = [7], private_key = [8]\<rparr> None\<rparr>],
     cw_handles = [(0, 0)], cw_world = (0, [])\<rparr>"

lemma e2e_over_quic: "over_quic e2e_env sample_quinn" and e2e_sleeps: "sleeps_quietly e2e_env"
  using sample_quinn_ok(1)
  by (auto simp: over_quic_def e2e_env_def picks_quietly_def sleeps_quietly_def
      intro!: exI[of _ "\<lambda>e. []"] exI[of _ "\<lambda>k. TransportCustom []"] exI[of _ "\<lambda>a cw. (0, cw)"])

lemma e2e_send:
  "\<exists>s'. send_data 4 (observed_quinn sample_quinn) debug conv d (client_state e2e_world 0)
     = Some (Return (Inr ()), s')"
proof -
  have four: "(4 :: nat) = Suc 3" by simp
  show ?thesis
    unfolding send_data_def send_buffer_def send_buffer0_def four send_buffer_loop.simps
    by (simp add: e2e_world_def client_state_def sample_quinn_def observed_quinn_def
      acquire_connection_def make_connection_def get_endpoint_def create_endpoint_def base_endpoint_def
      create_quinn_endpoint_def new_quic_client_def new_lazy_endpoint_def lifted_def logged_def
      send_on_connection_def send_buffer_using_conn_def update_moving_stats_def Let_def)
qed

lemma e2e_handle:
  "\<exists>resp cw'. handle_transaction e2e_env \<lparr>txn = d\<rparr> e2e_world = (Return resp, cw') \<and> status_code resp = 200"
proof -
  let ?p = "txn_payload e2e_env d"
  obtain s' where s: "send_data 4 (observed_quinn sample_quinn) (\<lambda>e. []) (\<lambda>k. TransportCustom []) ?p
      (client_state e2e_world 0) = Some (Return (Inr ()), s')" using e2e_send by blast
  have f: "fanout_slots sample_client = 8" by (simp add: sample_client_def)
  have "attempt_txn e2e_env ?p e2e_world = (Return (Inr ()), store_client e2e_world 0 s')"
    using sample_client_sockets s f
    by (simp add: attempt_txn_def tpu_try_send_wire_transaction_def try_send_wire_transaction_def
        e2e_env_def join_all_def send_wire_transaction_to_addr_def quic_conn_ops_def map_filter_simps
        collect_results_def)
  then have "transaction_loop e2e_env d 0 None e2e_world = (Return (Inr 1), store_client e2e_world 0 s')"
    by (subst transaction_loop_step) simp
  then show ?thesis by (simp add: handle_transaction_def Let_def)
qed





lemma e2e_batch:
  "\<exists>resp cw'. handle_transactions_batched e2e_env \<lparr>txns = [[1], [0]]\<rparr> e2e_world = (Return resp, cw')
    \<and> status_code resp = 200"
proof -
  have c: "chunks_of 10 [[1 :: u8]] = [[[1]]]"
    by (subst chunks_of.simps, simp, subst chunks_of.simps, simp)
  have m: "List.map_filter (srv_decode e2e_env) [[1], [0]] = [[1]]"
    by (simp add: e2e_env_def map_filter_simps)
  have s: "\<exists>s'. send_data_batch 4 (observed_quinn sample_quinn) (\<lambda>e. []) (\<lambda>k. TransportCustom []) [[1]]
      (client_state e2e_world 0) = Some (Return (Inr ()), s')"
    using e2e_send[of "\<lambda>e. []" "\<lambda>k. TransportCustom []" "[1]"]
    by (auto simp: send_data_batch_def send_batch_def send_data_def send_buffer_def Let_def
        split: option.splits prod.splits outcome.splits sum.splits)
  then obtain s' where s: "send_data_batch 4 (observed_quinn sample_quinn) (\<lambda>e. []) (\<lambda>k. TransportCustom [])
      [[1]] (client_state e2e_world 0) = Some (Return (Inr ()), s')" by blast
  have f: "fanout_slots sample_client = 8" by (simp add: sample_client_def)
  have "attempt_batch e2e_env [[1]] e2e_world = (Return (Inr ()), store_client e2e_world 0 s')"
    using sample_client_sockets s f
    by (simp add: attempt_batch_def tpu_try_send_wire_transaction_batch_def
        try_send_wire_transaction_batch_def e2e_env_def join_all_def
        send_wire_transaction_batch_to_addr_def quic_conn_ops_def map_filter_simps collect_results_def)
  then have "batch_loop e2e_env [[1]] 0 0 None e2e_world = (Return (Inr (1, None)), store_client e2e_world 0 s')"
    by (subst batch_loop_step) (simp_all add: e2e_env_def add_w_def)
  then show ?thesis
    unfolding handle_transactions_batched_def transactions_request.simps m c by simp
qed


end
